theory Spec2Isabelle
  imports Complex_Main "HOL-Library.Sublist"
begin

section \<open>Python strings and the regular expressions of the PDF service\<close>

text \<open>
  A Python \<open>str\<close> is a sequence of Unicode code points and \<open>len\<close> counts code points,
  so a string is a list of code points. \<open>py\<close> turns a literal into such a list.
\<close>

type_synonym pystr = "nat list"

definition py :: "string \<Rightarrow> pystr" where
  "py s = map of_char s"

abbreviation SPACE :: nat where "SPACE \<equiv> 32"
abbreviation DOT :: nat where "DOT \<equiv> 46"

text \<open>
  The code points for which \<open>str.isspace\<close>, \<open>str.strip\<close> and the pattern \<open>\s\<close> agree
  (CPython's whitespace table).
\<close>

definition is_space :: "nat \<Rightarrow> bool" where
  "is_space c \<longleftrightarrow> (9 \<le> c \<and> c \<le> 13) \<or> (28 \<le> c \<and> c \<le> 32) \<or> c = 133 \<or> c = 160
      \<or> c = 5760 \<or> (8192 \<le> c \<and> c \<le> 8202) \<or> c = 8232 \<or> c = 8233 \<or> c = 8239
      \<or> c = 8287 \<or> c = 12288"

text \<open>
  The pattern \<open>\w\<close>: below 128 it is \<open>[A-Za-z0-9_]\<close>; beyond ASCII the Unicode database of
  the Python runtime decides, which the model takes as the parameter \<open>uni\<close>.
\<close>

definition ascii_word :: "nat \<Rightarrow> bool" where
  "ascii_word c \<longleftrightarrow>
     (48 \<le> c \<and> c \<le> 57) \<or> (65 \<le> c \<and> c \<le> 90) \<or> c = 95 \<or> (97 \<le> c \<and> c \<le> 122)"

definition is_word :: "(nat \<Rightarrow> bool) \<Rightarrow> nat \<Rightarrow> bool" where
  "is_word uni c = (if c < 128 then ascii_word c else uni c)"

text \<open>\<open>s.strip()\<close>: leading and trailing whitespace removed.\<close>

definition strip :: "pystr \<Rightarrow> pystr" where
  "strip s = rev (dropWhile is_space (rev (dropWhile is_space s)))"

text \<open>
  \<open>re.sub\<close> scans from the left and replaces every non-overlapping match, the match at a
  position being the longest one. Three shapes of pattern occur in the service:
  \<open>C+\<close> (a run of a character class), a single character of a class, and \<open>C{n,}\<close> with
  \<open>n \<ge> 1\<close>.
\<close>

function re_sub_plus :: "(nat \<Rightarrow> bool) \<Rightarrow> pystr \<Rightarrow> pystr \<Rightarrow> pystr" where
  "re_sub_plus P r [] = []"
| "re_sub_plus P r (c # cs) =
     (if P c then r @ re_sub_plus P r (dropWhile P cs) else c # re_sub_plus P r cs)"
  by pat_completeness auto
termination
  by (relation "measure (\<lambda>(P, r, s). length s)") (auto simp: length_dropWhile_le less_Suc_eq_le)

primrec re_sub_class :: "(nat \<Rightarrow> bool) \<Rightarrow> pystr \<Rightarrow> pystr \<Rightarrow> pystr" where
  "re_sub_class P r [] = []"
| "re_sub_class P r (c # cs) = (if P c then r else [c]) @ re_sub_class P r cs"

function re_sub_atleast :: "nat \<Rightarrow> (nat \<Rightarrow> bool) \<Rightarrow> pystr \<Rightarrow> pystr \<Rightarrow> pystr" where
  "re_sub_atleast n P r [] = []"
| "re_sub_atleast n P r (c # cs) =
     (if P c \<and> n \<le> length (takeWhile P (c # cs))
      then r @ re_sub_atleast n P r (dropWhile P cs)
      else c # re_sub_atleast n P r cs)"
  by pat_completeness auto
termination
  by (relation "measure (\<lambda>(n, P, r, s). length s)") (auto simp: length_dropWhile_le less_Suc_eq_le)

text \<open>
  \<open>re.split\<close> on \<open>C+\<close>: the pieces between the runs of delimiters, the empty pieces at
  both ends included.
\<close>

function re_split :: "(nat \<Rightarrow> bool) \<Rightarrow> pystr \<Rightarrow> pystr list" where
  "re_split d s =
     (case dropWhile (\<lambda>c. \<not> d c) s of
        [] \<Rightarrow> [s]
      | x # rest \<Rightarrow> takeWhile (\<lambda>c. \<not> d c) s # re_split d (dropWhile d rest))"
  by pat_completeness auto
termination
proof (relation "measure (\<lambda>(d, s). length s)")
  show "wf (measure (\<lambda>(d, s). length s))" by simp
next
  fix d :: "nat \<Rightarrow> bool" and s x rest
  assume a: "dropWhile (\<lambda>c. \<not> d c) s = x # rest"
  have "length (dropWhile d rest) \<le> length rest" by (rule length_dropWhile_le)
  moreover have "length (x # rest) \<le> length s"
    using a length_dropWhile_le[of "\<lambda>c. \<not> d c" s] by simp
  ultimately show "((d, dropWhile d rest), (d, s)) \<in> measure (\<lambda>(d, s). length s)" by simp
qed

declare re_split.simps [simp del]

text \<open>\<open>s.find(c)\<close> (\<open>None\<close> for \<open>-1\<close>) and the slice \<open>s[-n:]\<close>, which is all of \<open>s\<close> for \<open>n = 0\<close>.\<close>

definition py_find :: "nat \<Rightarrow> pystr \<Rightarrow> nat option" where
  "py_find c s = (if c \<in> set s then Some (length (takeWhile (\<lambda>x. x \<noteq> c) s)) else None)"

definition py_last :: "nat \<Rightarrow> pystr \<Rightarrow> pystr" where
  "py_last n s = (if n = 0 then s else drop (length s - n) s)"

section \<open>PDFService: cleaning and chunking\<close>

text \<open>\<open>config/settings.py\<close>: the chunk settings.\<close>

definition CHUNK_SIZE :: nat where "CHUNK_SIZE = 1000"
definition CHUNK_OVERLAP :: nat where "CHUNK_OVERLAP = 200"

text \<open>\<open>PDFService._clean_text\<close>: the class \<open>[^\w\s.,;:!?()-]\<close> and the three substitutions.\<close>

definition allowed_char :: "(nat \<Rightarrow> bool) \<Rightarrow> nat \<Rightarrow> bool" where
  "allowed_char uni c \<longleftrightarrow> is_word uni c \<or> is_space c \<or> c \<in> set (py ''.,;:!?()-'')"

definition clean_text :: "(nat \<Rightarrow> bool) \<Rightarrow> pystr \<Rightarrow> pystr" where
  "clean_text uni text0 =
     (let text1 = re_sub_plus is_space (py '' '') text0;
          text2 = re_sub_class (\<lambda>c. \<not> allowed_char uni c) (py '''') text1;
          text3 = re_sub_atleast 3 (\<lambda>c. c = DOT) (py ''...'') text2
      in strip text3)"

text \<open>\<open>PDFService._split_into_sentences\<close>: split on \<open>[.!?]+\<close>, keep what is not blank.\<close>

definition is_terminator :: "nat \<Rightarrow> bool" where
  "is_terminator c \<longleftrightarrow> c \<in> set (py ''.!?'')"

definition split_into_sentences :: "pystr \<Rightarrow> pystr list" where
  "split_into_sentences s = map strip (filter (\<lambda>p. strip p \<noteq> []) (re_split is_terminator s))"

text \<open>\<open>PDFService._get_overlap_text\<close>.\<close>

definition get_overlap_text :: "nat \<Rightarrow> pystr \<Rightarrow> pystr" where
  "get_overlap_text chunk_overlap s =
     (if length s \<le> chunk_overlap then s
      else let overlap = py_last chunk_overlap s in
        case py_find SPACE overlap of
          Some space_index \<Rightarrow> strip (drop space_index overlap)
        | None \<Rightarrow> overlap)"

text \<open>
  \<open>PDFService.chunk_text\<close>: one turn of the loop over the sentences, on the pair of the
  chunks closed so far and the running chunk, and the function itself.
\<close>

definition chunk_step :: "nat \<Rightarrow> nat \<Rightarrow> pystr list \<times> pystr \<Rightarrow> pystr \<Rightarrow> pystr list \<times> pystr" where
  "chunk_step chunk_size chunk_overlap st sentence =
     (case st of (chunks, current_chunk) \<Rightarrow>
        if length current_chunk + length sentence > chunk_size then
          if current_chunk \<noteq> [] then
            (chunks @ [strip current_chunk],
             get_overlap_text chunk_overlap current_chunk @ py '' '' @ sentence)
          else (chunks, sentence)
        else (chunks, if current_chunk \<noteq> [] then current_chunk @ py '' '' @ sentence else sentence))"

definition chunk_text :: "nat \<Rightarrow> nat \<Rightarrow> pystr \<Rightarrow> pystr list" where
  "chunk_text chunk_size chunk_overlap s =
     (case foldl (chunk_step chunk_size chunk_overlap) ([], []) (split_into_sentences s) of
        (chunks, current_chunk) \<Rightarrow>
          if current_chunk \<noteq> [] then chunks @ [strip current_chunk] else chunks)"

section \<open>The normalisation and the overlap seed as the specification words them\<close>

text \<open>The maximal runs of a list on which a predicate does not change.\<close>

function runs :: "('a \<Rightarrow> bool) \<Rightarrow> 'a list \<Rightarrow> 'a list list" where
  "runs P [] = []"
| "runs P (c # cs) =
     (c # takeWhile (\<lambda>d. P d = P c) cs) # runs P (dropWhile (\<lambda>d. P d = P c) cs)"
  by pat_completeness auto
termination
  by (relation "measure (\<lambda>(P, s). length s)") (auto simp: length_dropWhile_le less_Suc_eq_le)

definition spec_collapse_whitespace :: "pystr \<Rightarrow> pystr" where
  "spec_collapse_whitespace s =
     concat (map (\<lambda>r. if list_all is_space r then [SPACE] else r) (runs is_space s))"

definition spec_remove_disallowed :: "(nat \<Rightarrow> bool) \<Rightarrow> pystr \<Rightarrow> pystr" where
  "spec_remove_disallowed uni s = filter (allowed_char uni) s"

definition spec_collapse_periods :: "pystr \<Rightarrow> pystr" where
  "spec_collapse_periods s =
     concat (map (\<lambda>r. if list_all (\<lambda>c. c = DOT) r \<and> 3 \<le> length r then [DOT, DOT, DOT] else r)
                 (runs (\<lambda>c. c = DOT) s))"

definition spec_trim :: "pystr \<Rightarrow> pystr" where
  "spec_trim s = rev (dropWhile is_space (rev (dropWhile is_space s)))"

text \<open>
  The overlap seed in the specification's words: the last \<open>overlap_len\<close> characters of the
  closed chunk, starting after the first space of that tail, the whole tail if it has no
  space.
\<close>

definition spec_overlap_seed :: "nat \<Rightarrow> pystr \<Rightarrow> pystr" where
  "spec_overlap_seed overlap_len prev =
     (let tail = drop (length prev - overlap_len) prev in
      if SPACE \<in> set tail then drop 1 (dropWhile (\<lambda>c. c \<noteq> SPACE) tail) else tail)"

definition term_free :: "pystr \<Rightarrow> bool" where
  "term_free s \<longleftrightarrow> list_all (\<lambda>c. \<not> is_terminator c) s"

text \<open>
  Text whose only whitespace is the space character, as \<open>_clean_text\<close> returns it; a
  string that is not empty, neither begins nor ends with whitespace and has only such
  whitespace; a list of chunks each of which begins with the overlap text of the one
  before it and a space; and what the loop of \<open>chunk_text\<close> keeps true of the chunks
  closed so far and the running chunk.
\<close>

definition only_spaces :: "pystr \<Rightarrow> bool" where
  "only_spaces s \<longleftrightarrow> list_all (\<lambda>c. is_space c \<longrightarrow> c = SPACE) s"

definition tidy :: "pystr \<Rightarrow> bool" where
  "tidy s \<longleftrightarrow> s \<noteq> [] \<and> \<not> is_space (hd s) \<and> \<not> is_space (last s) \<and> only_spaces s"

definition seams :: "nat \<Rightarrow> pystr list \<Rightarrow> bool" where
  "seams ov xs \<longleftrightarrow>
     (\<forall>i. Suc i < length xs \<longrightarrow> prefix (get_overlap_text ov (xs ! i) @ [SPACE]) (xs ! Suc i))"

definition seam_inv :: "nat \<Rightarrow> pystr list \<times> pystr \<Rightarrow> bool" where
  "seam_inv ov st \<longleftrightarrow>
     (case st of (chunks, cur) \<Rightarrow>
        (cur = [] \<longrightarrow> chunks = []) \<and> (cur \<noteq> [] \<longrightarrow> tidy cur)
        \<and> seams ov (chunks @ [cur]))"

section \<open>Exceptions, collaborators and the state of the world\<close>

text \<open>The exceptions the services raise, catch or pass on.\<close>

datatype exn =
    ValueError
  | ConnectionError
  | TimeoutError
  | FileNotFoundError
  | PermissionError
  | HTTPError nat
  | RequestsConnectionError
  | RequestsConnectTimeout
  | RequestsTimeout
  | RetryError
  | PdfReadError
  | IndexError
  | KeyError
  | APIError
  | Failure string
  | OtherError string

record response =
  status_code :: nat
  content_type :: string
  content :: "nat list"

datatype origin_reply = Answers response | Refuses

text \<open>
  The rows of the five tables (\<open>models/database.py\<close>). The time stamps
  (\<open>uploaded_at\<close>, \<open>created_at\<close>) are wall-clock readings and are left out.
\<close>

record document_row =
  doc_id :: string
  doc_url :: string

record chunk_row =
  c_id :: string
  c_document_id :: string
  c_chunk_index :: nat
  c_chunk_text :: pystr
  c_pinecone_id :: string

record query_row =
  q_id :: string
  q_document_id :: string
  q_query_text :: pystr

record answer_row =
  a_id :: string
  a_query_id :: string
  a_answer_text :: pystr
  a_decision :: "string option"
  a_amount :: "real option"

record clause_row =
  cl_id :: string
  cl_answer_id :: string
  cl_chunk_id :: string
  cl_clause_text :: pystr
  cl_similarity_score :: real

text \<open>What \<open>store_chunks\<close> upserts, what \<open>index.query\<close> answers and what
  \<open>search_similar_chunks\<close> makes of it. A key missing from a raw match is \<open>None\<close>.\<close>

record vector_row =
  v_id :: string
  v_values :: "real list"
  v_document_id :: string
  v_chunk_index :: nat
  v_text :: pystr
  v_full_text :: pystr

record raw_match =
  r_id :: string
  r_score :: real
  r_full_text :: "pystr option"
  r_chunk_index :: "nat option"
  r_document_id :: "string option"

record retrieval_match =
  m_id :: string
  m_text :: pystr
  m_score :: real
  m_chunk_index :: nat
  m_document_id :: string

text \<open>
  Every call of a collaborator is recorded, in order. \<open>ChunkText\<close> records that the
  chunking stage ran; \<open>EncodeChunks\<close> and \<open>EncodeQuery\<close> are the two call sites of
  \<open>embedding_model.encode\<close>; \<open>Select\<close> and \<open>Insert\<close> are an \<open>execute()\<close> on the named
  table.
\<close>

datatype call =
    SessionGet string
  | HttpRequest string
  | Sleep nat
  | PdfRead
  | ChunkText
  | EncodeChunks "pystr list"
  | EncodeQuery pystr
  | Upsert "string list"
  | IndexQuery nat
  | GenerateContent pystr
  | Select string
  | Insert string

datatype db_outcome = Executed | Raised | NoData

record pinecone_index =
  upsert_reply :: "nat \<Rightarrow> exn option"
  query_reply :: "nat \<Rightarrow> real list \<Rightarrow> nat \<Rightarrow> exn + raw_match list"

text \<open>
  The collaborators. A reply that may change from call to call is a function of the
  position of the call in the record of calls. \<open>index\<close> is \<open>None\<close> when the Pinecone
  service was constructed without a reachable index (\<open>self.index is None\<close>).
  \<open>generate_content\<close> stands for building the prompt and asking the language model.
\<close>

record env =
  uuid4 :: "nat \<Rightarrow> string"
  db_reply :: "nat \<Rightarrow> db_outcome"
  origin :: "string \<Rightarrow> nat \<Rightarrow> origin_reply"
  pdf_reader :: "nat list \<Rightarrow> exn + (exn + pystr) list"
  embedding_model :: "pystr list \<Rightarrow> exn + real list list"
  index :: "pinecone_index option"
  generate_content :: "nat \<Rightarrow> pystr \<Rightarrow> retrieval_match list \<Rightarrow> exn + pystr"
  uni :: "nat \<Rightarrow> bool"

record world =
  documents :: "document_row list"
  document_chunks :: "chunk_row list"
  user_queries :: "query_row list"
  answers :: "answer_row list"
  answer_clauses :: "clause_row list"
  vectors :: "vector_row list"
  calls :: "call list"
  uuids_drawn :: nat

text \<open>A computation changes the world and returns a result or raises.\<close>

type_synonym 'a io = "world \<Rightarrow> (exn + 'a) \<times> world"

definition ret :: "'a \<Rightarrow> 'a io" where
  "ret x w = (Inr x, w)"

definition raise :: "exn \<Rightarrow> 'a io" where
  "raise e w = (Inl e, w)"

definition bind :: "'a io \<Rightarrow> ('a \<Rightarrow> 'b io) \<Rightarrow> 'b io" where
  "bind m f w = (case m w of (Inl e, w') \<Rightarrow> (Inl e, w') | (Inr x, w') \<Rightarrow> f x w')"

definition try_except :: "'a io \<Rightarrow> (exn \<Rightarrow> 'a io) \<Rightarrow> 'a io" where
  "try_except m h w = (case m w of (Inl e, w') \<Rightarrow> h e w' | (Inr x, w') \<Rightarrow> (Inr x, w'))"

definition record_call :: "call \<Rightarrow> unit io" where
  "record_call c w = (Inr (), w\<lparr>calls := calls w @ [c]\<rparr>)"

primrec for_each :: "'a list \<Rightarrow> ('a \<Rightarrow> unit io) \<Rightarrow> unit io" where
  "for_each [] f = ret ()"
| "for_each (x # xs) f = bind (f x) (\<lambda>_. for_each xs f)"

definition new_uuid :: "env \<Rightarrow> string io" where
  "new_uuid env w = (Inr (uuid4 env (uuids_drawn w)), w\<lparr>uuids_drawn := Suc (uuids_drawn w)\<rparr>)"

text \<open>\<open>str(i)\<close> for a natural number.\<close>

fun str_nat :: "nat \<Rightarrow> string" where
  "str_nat n =
     (if n < 10 then [''0123456789'' ! n]
      else str_nat (n div 10) @ [''0123456789'' ! (n mod 10)])"

declare str_nat.simps [simp del]

section \<open>PDFService: the download\<close>

text \<open>
  \<open>_create_robust_session\<close> mounts an adapter with
  \<open>Retry(total=3, backoff_factor=1, status_forcelist=[429, 500, 502, 503, 504])\<close>. The
  adapter is library code (requests, urllib3); the model follows what urllib3 does.
  A reply whose status is in the list, and a refused connection, are tried again while
  retries are left. Before it tries again the policy sleeps \<open>get_backoff_time()\<close>
  seconds, which is 0 (no sleep) after the first failure and
  \<open>backoff_factor * 2 ** (consecutive_errors_len - 1)\<close>, at most \<open>DEFAULT_BACKOFF_MAX\<close>,
  after the following ones. When no retry is left the session raises \<open>RetryError\<close> for a
  status and \<open>ConnectionError\<close> for a refused connection. Any other reply is returned as it
  is. The replies of the model carry no \<open>Retry-After\<close> header (with one, the policy would
  sleep the time that the header names).
\<close>

definition retry_total :: nat where "retry_total = 3"

definition backoff_factor :: nat where "backoff_factor = 1"

definition DEFAULT_BACKOFF_MAX :: nat where "DEFAULT_BACKOFF_MAX = 120"

definition status_forcelist :: "nat list" where
  "status_forcelist = [429, 500, 502, 503, 504]"

definition get_backoff_time :: "nat \<Rightarrow> nat" where
  "get_backoff_time consecutive_errors_len =
     (if consecutive_errors_len \<le> 1 then 0
      else min DEFAULT_BACKOFF_MAX (backoff_factor * 2 ^ (consecutive_errors_len - 1)))"

definition sleep_backoff :: "nat \<Rightarrow> world \<Rightarrow> world" where
  "sleep_backoff consecutive_errors_len w =
     (let backoff = get_backoff_time consecutive_errors_len in
      if backoff \<le> 0 then w else w\<lparr>calls := calls w @ [Sleep backoff]\<rparr>)"

text \<open>
  One \<open>session.get\<close> through the adapter: \<open>retries\<close> retries are left and \<open>failures\<close>
  requests have failed so far (the length of the policy's history).
\<close>

fun adapter_send :: "env \<Rightarrow> string \<Rightarrow> nat \<Rightarrow> nat \<Rightarrow> response io" where
  "adapter_send env url 0 failures w =
     (let w' = w\<lparr>calls := calls w @ [HttpRequest url]\<rparr> in
      case origin env url (length (calls w)) of
        Answers r \<Rightarrow>
          if status_code r \<in> set status_forcelist then (Inl RetryError, w') else (Inr r, w')
      | Refuses \<Rightarrow> (Inl RequestsConnectionError, w'))"
| "adapter_send env url (Suc retries) failures w =
     (let w' = w\<lparr>calls := calls w @ [HttpRequest url]\<rparr> in
      case origin env url (length (calls w)) of
        Answers r \<Rightarrow>
          if status_code r \<in> set status_forcelist
          then adapter_send env url retries (Suc failures) (sleep_backoff (Suc failures) w')
          else (Inr r, w')
      | Refuses \<Rightarrow> adapter_send env url retries (Suc failures) (sleep_backoff (Suc failures) w'))"

definition session_get :: "env \<Rightarrow> string \<Rightarrow> response io" where
  "session_get env url = bind (record_call (SessionGet url)) (\<lambda>_. adapter_send env url retry_total 0)"

text \<open>
  The handler of \<open>requests.exceptions.HTTPError\<close>, which \<open>raise_for_status\<close> raises for a
  status from 400 to 599.
\<close>

definition on_http_error :: "nat \<Rightarrow> exn" where
  "on_http_error code =
     (if code = 404 then FileNotFoundError
      else if code = 403 then PermissionError
      else HTTPError code)"

text \<open>
  The loop \<open>for attempt in range(max_attempts)\<close> of \<open>extract_text_from_url\<close>, over any
  session: \<open>remaining\<close> turns are left, \<open>None\<close> is the response when the loop runs out.
\<close>

fun download_attempts ::
  "(string \<Rightarrow> response io) \<Rightarrow> string \<Rightarrow> nat \<Rightarrow> nat \<Rightarrow> nat \<Rightarrow> response option io" where
  "download_attempts get url max_attempts attempt 0 w = (Inr None, w)"
| "download_attempts get url max_attempts attempt (Suc remaining) w =
     (case get url w of
        (Inr r, w1) \<Rightarrow>
          if 400 \<le> status_code r \<and> status_code r < 600
          then (Inl (on_http_error (status_code r)), w1)
          else (Inr (Some r), w1)
      | (Inl e, w1) \<Rightarrow>
          if e = RequestsConnectionError \<or> e = RequestsConnectTimeout then
            if attempt = max_attempts - 1 then (Inl ConnectionError, w1)
            else download_attempts get url max_attempts (Suc attempt) remaining
                   (w1\<lparr>calls := calls w1 @ [Sleep (2 ^ attempt)]\<rparr>)
          else if e = RequestsTimeout then
            if attempt = max_attempts - 1 then (Inl TimeoutError, w1)
            else download_attempts get url max_attempts (Suc attempt) remaining
                   (w1\<lparr>calls := calls w1 @ [Sleep (2 ^ attempt)]\<rparr>)
          else (case e of
              HTTPError code \<Rightarrow> (Inl (on_http_error code), w1)
            | _ \<Rightarrow>
              if attempt = max_attempts - 1 then (Inl e, w1)
              else download_attempts get url max_attempts (Suc attempt) remaining
                     (w1\<lparr>calls := calls w1 @ [Sleep (2 ^ attempt)]\<rparr>)))"

definition download :: "(string \<Rightarrow> response io) \<Rightarrow> string \<Rightarrow> response io" where
  "download get pdf_url =
     (if \<not> (take 7 pdf_url = ''http://'' \<or> take 8 pdf_url = ''https://'') then raise ValueError
      else bind (download_attempts get pdf_url 3 0 3) (\<lambda>response.
        case response of
          None \<Rightarrow> raise (Failure ''Failed to download PDF after all attempts'')
        | Some r \<Rightarrow> ret r))"

text \<open>The pages of the PDF: a page whose extraction raises is skipped.\<close>

definition read_pdf :: "env \<Rightarrow> nat list \<Rightarrow> pystr io" where
  "read_pdf env bytes =
     bind (record_call PdfRead) (\<lambda>_.
       case pdf_reader env bytes of
         Inl e \<Rightarrow> raise (if e = PdfReadError then ValueError else e)
       | Inr pages \<Rightarrow>
           if length pages = 0 then raise ValueError
           else
             let text0 = concat (map (\<lambda>p. case p of Inl e \<Rightarrow> [] | Inr page_text \<Rightarrow> page_text @ [10]) pages)
             in if strip text0 = [] then raise ValueError else ret text0)"

definition extract_text_from_url :: "env \<Rightarrow> string \<Rightarrow> pystr io" where
  "extract_text_from_url env pdf_url =
     bind (download (session_get env) pdf_url) (\<lambda>r.
     bind (read_pdf env (content r)) (\<lambda>text0.
     ret (clean_text (uni env) text0)))"

definition chunk_text_io :: "pystr \<Rightarrow> pystr list io" where
  "chunk_text_io s = bind (record_call ChunkText) (\<lambda>_. ret (chunk_text CHUNK_SIZE CHUNK_OVERLAP s))"

section \<open>PineconeService\<close>

text \<open>
  The placeholder ids of the degraded mode, \<open>f"local_{document_id}_{i}_{uuid8}"\<close> for
  \<open>i\<close> in \<open>range(len(chunks))\<close>, each with a fresh \<open>uuid4\<close>.
\<close>

definition make_id :: "env \<Rightarrow> string \<Rightarrow> string \<Rightarrow> nat \<Rightarrow> nat \<Rightarrow> string" where
  "make_id env tag document_id drawn i =
     tag @ document_id @ ''_'' @ str_nat i @ ''_'' @ take 8 (uuid4 env (drawn + i))"

definition dummy_ids :: "env \<Rightarrow> string \<Rightarrow> string \<Rightarrow> nat \<Rightarrow> string list io" where
  "dummy_ids env tag document_id n w =
     (Inr (map (make_id env tag document_id (uuids_drawn w)) [0..<n]),
      w\<lparr>uuids_drawn := uuids_drawn w + n\<rparr>)"

definition encode_chunks :: "env \<Rightarrow> pystr list \<Rightarrow> real list list io" where
  "encode_chunks env chunks =
     bind (record_call (EncodeChunks chunks)) (\<lambda>_.
       case embedding_model env chunks of Inl e \<Rightarrow> raise e | Inr embeddings \<Rightarrow> ret embeddings)"

text \<open>The loop over \<open>enumerate(zip(chunks, embeddings))\<close> that builds the vectors.\<close>

definition make_vectors :: "env \<Rightarrow> string \<Rightarrow> (pystr \<times> real list) list \<Rightarrow> vector_row list io" where
  "make_vectors env document_id pairs w =
     (Inr (map (\<lambda>(i, chunk, embedding).
            \<lparr>v_id = make_id env [] document_id (uuids_drawn w) i,
             v_values = embedding,
             v_document_id = document_id,
             v_chunk_index = i,
             v_text = take 1000 chunk,
             v_full_text = chunk\<rparr>) (enumerate 0 pairs)),
      w\<lparr>uuids_drawn := uuids_drawn w + length pairs\<rparr>)"

definition index_upsert :: "pinecone_index \<Rightarrow> vector_row list \<Rightarrow> unit io" where
  "index_upsert idx vs w =
     (let w1 = w\<lparr>calls := calls w @ [Upsert (map v_id vs)]\<rparr> in
      case upsert_reply idx (length (calls w)) of
        Some e \<Rightarrow> (Inl e, w1)
      | None \<Rightarrow>
          (Inr (), w1\<lparr>vectors := filter (\<lambda>v. v_id v \<notin> set (map v_id vs)) (vectors w1) @ vs\<rparr>))"

text \<open>The body of the \<open>try\<close> of \<open>store_chunks\<close>, and \<open>store_chunks\<close>.\<close>

definition upsert_chunks :: "env \<Rightarrow> pinecone_index \<Rightarrow> pystr list \<Rightarrow> string \<Rightarrow> string list io" where
  "upsert_chunks env idx chunks document_id =
     bind (encode_chunks env chunks) (\<lambda>embeddings.
     bind (make_vectors env document_id (zip chunks embeddings)) (\<lambda>vs.
     bind (index_upsert idx vs) (\<lambda>_.
     ret (map v_id vs))))"

definition store_chunks :: "env \<Rightarrow> pystr list \<Rightarrow> string \<Rightarrow> string list io" where
  "store_chunks env chunks document_id =
     (case index env of
        None \<Rightarrow> dummy_ids env ''local_'' document_id (length chunks)
      | Some idx \<Rightarrow>
          try_except (upsert_chunks env idx chunks document_id)
            (\<lambda>e. dummy_ids env ''fallback_'' document_id (length chunks)))"

definition encode_query :: "env \<Rightarrow> pystr \<Rightarrow> real list list io" where
  "encode_query env query =
     bind (record_call (EncodeQuery query)) (\<lambda>_.
       case embedding_model env [query] of Inl e \<Rightarrow> raise e | Inr embeddings \<Rightarrow> ret embeddings)"

definition index_query :: "pinecone_index \<Rightarrow> real list \<Rightarrow> nat \<Rightarrow> raw_match list io" where
  "index_query idx embedding top_k w =
     (let w1 = w\<lparr>calls := calls w @ [IndexQuery top_k]\<rparr> in
      case query_reply idx (length (calls w)) embedding top_k of
        Inl e \<Rightarrow> (Inl e, w1)
      | Inr raw \<Rightarrow> (Inr raw, w1))"

definition format_match :: "raw_match \<Rightarrow> exn + retrieval_match" where
  "format_match r =
     (case (r_full_text r, r_chunk_index r, r_document_id r) of
        (Some full_text, Some chunk_index, Some document_id) \<Rightarrow>
          Inr \<lparr>m_id = r_id r, m_text = full_text, m_score = r_score r,
               m_chunk_index = chunk_index, m_document_id = document_id\<rparr>
      | _ \<Rightarrow> Inl KeyError)"

primrec format_matches :: "raw_match list \<Rightarrow> retrieval_match list io" where
  "format_matches [] = ret []"
| "format_matches (r # rs) =
     (case format_match r of
        Inl e \<Rightarrow> raise e
      | Inr m \<Rightarrow> bind (format_matches rs) (\<lambda>ms. ret (m # ms)))"

text \<open>The body of the \<open>try\<close> of \<open>search_similar_chunks\<close>, and \<open>search_similar_chunks\<close>.\<close>

definition query_index :: "env \<Rightarrow> pinecone_index \<Rightarrow> pystr \<Rightarrow> nat \<Rightarrow> retrieval_match list io" where
  "query_index env idx query top_k =
     bind (encode_query env query) (\<lambda>query_embedding.
       case query_embedding of
         [] \<Rightarrow> raise IndexError
       | embedding # _ \<Rightarrow>
           bind (index_query idx embedding top_k) (\<lambda>raw. format_matches raw))"

definition search_similar_chunks :: "env \<Rightarrow> pystr \<Rightarrow> nat \<Rightarrow> retrieval_match list io" where
  "search_similar_chunks env query top_k =
     (case index env of
        None \<Rightarrow> ret []
      | Some idx \<Rightarrow> try_except (query_index env idx query top_k) (\<lambda>e. ret []))"

section \<open>GeminiService\<close>

definition generate_answer :: "env \<Rightarrow> pystr \<Rightarrow> retrieval_match list \<Rightarrow> pystr io" where
  "generate_answer env question relevant_chunks =
     try_except
       (\<lambda>w. case generate_content env (length (calls w)) question relevant_chunks of
               Inl e \<Rightarrow> (Inl e, w\<lparr>calls := calls w @ [GenerateContent question]\<rparr>)
             | Inr answer \<Rightarrow> (Inr (strip answer), w\<lparr>calls := calls w @ [GenerateContent question]\<rparr>))
       (\<lambda>e. ret (py ''Unable to generate answer for the question: '' @ question))"

section \<open>DatabaseService\<close>

definition DOCUMENTS :: string where "DOCUMENTS = ''documents''"
definition USER_QUERIES :: string where "USER_QUERIES = ''user_queries''"
definition DOCUMENT_CHUNKS :: string where "DOCUMENT_CHUNKS = ''document_chunks''"
definition ANSWERS :: string where "ANSWERS = ''answers''"
definition ANSWER_CLAUSES :: string where "ANSWER_CLAUSES = ''answer_clauses''"

text \<open>
  \<open>execute()\<close> of a select that reads \<open>rows\<close>, and of an insert that stores with \<open>store\<close>
  and returns \<open>rows\<close>: it may raise, and its reply may carry no data (then nothing was
  stored).
\<close>

definition db_select :: "env \<Rightarrow> string \<Rightarrow> (world \<Rightarrow> 'a list) \<Rightarrow> 'a list io" where
  "db_select env table rows w =
     (let w1 = w\<lparr>calls := calls w @ [Select table]\<rparr> in
      case db_reply env (length (calls w)) of
        Raised \<Rightarrow> (Inl APIError, w1)
      | NoData \<Rightarrow> (Inr [], w1)
      | Executed \<Rightarrow> (Inr (rows w), w1))"

definition db_insert :: "env \<Rightarrow> string \<Rightarrow> (world \<Rightarrow> world) \<Rightarrow> 'a list \<Rightarrow> 'a list io" where
  "db_insert env table store rows w =
     (let w1 = w\<lparr>calls := calls w @ [Insert table]\<rparr> in
      case db_reply env (length (calls w)) of
        Raised \<Rightarrow> (Inl APIError, w1)
      | NoData \<Rightarrow> (Inr [], w1)
      | Executed \<Rightarrow> (Inr rows, store w1))"

definition get_or_create_document :: "env \<Rightarrow> string \<Rightarrow> document_row io" where
  "get_or_create_document env url =
     bind (db_select env DOCUMENTS (\<lambda>w. filter (\<lambda>d. doc_url d = url) (documents w))) (\<lambda>data.
       case data of
         document # _ \<Rightarrow> ret document
       | [] \<Rightarrow>
           bind (new_uuid env) (\<lambda>u.
           let new_document = \<lparr>doc_id = u, doc_url = url\<rparr> in
           bind (db_insert env DOCUMENTS (\<lambda>w. w\<lparr>documents := documents w @ [new_document]\<rparr>)
                   [new_document]) (\<lambda>data2.
             case data2 of
               document # _ \<Rightarrow> ret document
             | [] \<Rightarrow> raise (Failure ''Failed to create document''))))"

definition has_chunks :: "env \<Rightarrow> string \<Rightarrow> bool io" where
  "has_chunks env document_id =
     try_except
       (bind (db_select env DOCUMENT_CHUNKS
                (\<lambda>w. filter (\<lambda>c. c_document_id c = document_id) (document_chunks w))) (\<lambda>data.
          ret (length data > 0)))
       (\<lambda>e. ret False)"

definition create_document_chunk ::
  "env \<Rightarrow> string \<Rightarrow> nat \<Rightarrow> pystr \<Rightarrow> string \<Rightarrow> chunk_row io" where
  "create_document_chunk env document_id chunk_index chunk_text0 pinecone_id =
     bind (new_uuid env) (\<lambda>u.
     let chunk_data = \<lparr>c_id = u, c_document_id = document_id, c_chunk_index = chunk_index,
                       c_chunk_text = chunk_text0, c_pinecone_id = pinecone_id\<rparr> in
     bind (db_insert env DOCUMENT_CHUNKS
             (\<lambda>w. w\<lparr>document_chunks := document_chunks w @ [chunk_data]\<rparr>) [chunk_data]) (\<lambda>data.
       case data of
         row # _ \<Rightarrow> ret row
       | [] \<Rightarrow> raise (Failure ''Failed to create document chunk'')))"

definition create_user_query :: "env \<Rightarrow> string \<Rightarrow> pystr \<Rightarrow> query_row io" where
  "create_user_query env document_id query_text =
     bind (new_uuid env) (\<lambda>u.
     let query_data = \<lparr>q_id = u, q_document_id = document_id, q_query_text = query_text\<rparr> in
     bind (db_insert env USER_QUERIES
             (\<lambda>w. w\<lparr>user_queries := user_queries w @ [query_data]\<rparr>) [query_data]) (\<lambda>data.
       case data of
         query # _ \<Rightarrow> ret query
       | [] \<Rightarrow> raise (Failure ''Failed to create user query'')))"

text \<open>
  The loop of \<open>create_answer_with_clauses\<close> over the matches: the chunk row is looked up
  by \<open>pinecone_id\<close> alone, and a match without a row adds no clause.
\<close>

primrec collect_clauses :: "env \<Rightarrow> answer_row \<Rightarrow> retrieval_match list \<Rightarrow> clause_row list io" where
  "collect_clauses env answer [] = ret []"
| "collect_clauses env answer (chunk_data # rest) =
     bind (db_select env DOCUMENT_CHUNKS
             (\<lambda>w. filter (\<lambda>c. c_pinecone_id c = m_id chunk_data) (document_chunks w))) (\<lambda>found.
       case found of
         chunk # _ \<Rightarrow>
           bind (new_uuid env) (\<lambda>u.
           bind (collect_clauses env answer rest) (\<lambda>more.
           ret (\<lparr>cl_id = u, cl_answer_id = a_id answer, cl_chunk_id = c_id chunk,
                 cl_clause_text = take 1000 (m_text chunk_data),
                 cl_similarity_score = m_score chunk_data\<rparr> # more)))
       | [] \<Rightarrow> collect_clauses env answer rest)"

definition create_answer_with_clauses ::
  "env \<Rightarrow> string \<Rightarrow> pystr \<Rightarrow> retrieval_match list \<Rightarrow> answer_row io" where
  "create_answer_with_clauses env query_id answer_text relevant_chunks =
     bind (new_uuid env) (\<lambda>u.
     let answer_data = \<lparr>a_id = u, a_query_id = query_id, a_answer_text = answer_text,
                        a_decision = None, a_amount = None\<rparr> in
     bind (db_insert env ANSWERS (\<lambda>w. w\<lparr>answers := answers w @ [answer_data]\<rparr>) [answer_data])
       (\<lambda>data.
         case data of
           [] \<Rightarrow> raise (Failure ''Failed to create answer'')
         | answer # _ \<Rightarrow>
             bind (collect_clauses env answer relevant_chunks) (\<lambda>clauses_data.
             bind (if clauses_data \<noteq> []
                   then db_insert env ANSWER_CLAUSES
                          (\<lambda>w. w\<lparr>answer_clauses := answer_clauses w @ clauses_data\<rparr>) clauses_data
                   else ret []) (\<lambda>_.
             ret answer))))"

section \<open>QueryController\<close>

definition store_document_chunks :: "env \<Rightarrow> string \<Rightarrow> pystr list \<Rightarrow> unit io" where
  "store_document_chunks env document_id chunks =
     bind (store_chunks env chunks document_id) (\<lambda>chunk_data.
       for_each (enumerate 0 (zip chunks chunk_data)) (\<lambda>(i, chunk_text0, pinecone_id).
         bind (create_document_chunk env document_id i chunk_text0 pinecone_id) (\<lambda>_. ret ())))"

primrec answer_questions :: "env \<Rightarrow> document_row \<Rightarrow> pystr list \<Rightarrow> pystr list io" where
  "answer_questions env document [] = ret []"
| "answer_questions env document (question # rest) =
     bind (create_user_query env (doc_id document) question) (\<lambda>query.
     bind (search_similar_chunks env question 5) (\<lambda>relevant_chunks.
     bind (generate_answer env question relevant_chunks) (\<lambda>answer_text.
     bind (create_answer_with_clauses env (q_id query) answer_text relevant_chunks) (\<lambda>_.
     bind (answer_questions env document rest) (\<lambda>more.
     ret (answer_text # more))))))"

definition ingest :: "env \<Rightarrow> string \<Rightarrow> string \<Rightarrow> unit io" where
  "ingest env pdf_url document_id =
     bind (extract_text_from_url env pdf_url) (\<lambda>pdf_text.
     bind (chunk_text_io pdf_text) (\<lambda>chunks.
     store_document_chunks env document_id chunks))"

definition process_document_queries :: "env \<Rightarrow> string \<Rightarrow> pystr list \<Rightarrow> pystr list io" where
  "process_document_queries env pdf_url questions =
     bind (get_or_create_document env pdf_url) (\<lambda>document.
     bind (has_chunks env (doc_id document)) (\<lambda>processed.
     bind (if \<not> processed then ingest env pdf_url (doc_id document) else ret ()) (\<lambda>_.
     answer_questions env document questions)))"

text \<open>The calls that belong to ingestion: fetching, reading, chunking, embedding the
  chunks and upserting.\<close>

fun is_ingestion_call :: "call \<Rightarrow> bool" where
  "is_ingestion_call (SessionGet _) = True"
| "is_ingestion_call (HttpRequest _) = True"
| "is_ingestion_call (Sleep _) = True"
| "is_ingestion_call PdfRead = True"
| "is_ingestion_call ChunkText = True"
| "is_ingestion_call (EncodeChunks _) = True"
| "is_ingestion_call (Upsert _) = True"
| "is_ingestion_call _ = False"

definition ingestion_calls :: "world \<Rightarrow> call list" where
  "ingestion_calls w = filter is_ingestion_call (calls w)"

text \<open>The attempts, the waits (every \<open>time.sleep\<close>, of the loop and of the retry policy)
  and the requests that a record of calls holds.\<close>

fun is_session_get :: "call \<Rightarrow> bool" where
  "is_session_get (SessionGet _) = True"
| "is_session_get _ = False"

fun sleeps :: "call list \<Rightarrow> nat list" where
  "sleeps [] = []"
| "sleeps (Sleep n # cs) = n # sleeps cs"
| "sleeps (_ # cs) = sleeps cs"

fun is_http_request :: "call \<Rightarrow> bool" where
  "is_http_request (HttpRequest _) = True"
| "is_http_request _ = False"

section \<open>A small world for concrete runs\<close>

text \<open>
  Collaborators that always work: every \<open>execute()\<close> succeeds, the origin answers 200
  with a one-page PDF, embeddings are empty vectors, no Pinecone index is connected and
  the language model repeats the question.
\<close>

definition demo_env :: env where
  "demo_env =
     \<lparr>uuid4 = (\<lambda>k. ''uuid-'' @ str_nat k),
      db_reply = (\<lambda>_. Executed),
      origin = (\<lambda>_ _. Answers \<lparr>status_code = 200, content_type = ''application/pdf'', content = []\<rparr>),
      pdf_reader = (\<lambda>_. Inr [Inr (py ''ab. ba! ab?'')]),
      embedding_model = (\<lambda>ts. Inr (map (\<lambda>_. []) ts)),
      index = None,
      generate_content = (\<lambda>_ q _. Inr q),
      uni = (\<lambda>_. False)\<rparr>"

definition empty_world :: world where
  "empty_world =
     \<lparr>documents = [], document_chunks = [], user_queries = [], answers = [],
      answer_clauses = [], vectors = [], calls = [], uuids_drawn = 0\<rparr>"

text \<open>An origin that answers every request with 503, and an index every call of which
  raises.\<close>

definition env_503 :: env where
  "env_503 = demo_env\<lparr>origin := (\<lambda>_ _. Answers \<lparr>status_code = 503, content_type = [], content = []\<rparr>)\<rparr>"

definition failing_index :: pinecone_index where
  "failing_index = \<lparr>upsert_reply = (\<lambda>_. Some (OtherError ''unreachable'')),
                     query_reply = (\<lambda>_ _ _. Inl (OtherError ''unreachable''))\<rparr>"

definition env_failing_index :: env where
  "env_failing_index = demo_env\<lparr>index := Some failing_index\<rparr>"

text \<open>
  Two documents with one chunk each, and an index that answers every query with the
  vector of the first document's chunk.
\<close>

definition world_ab :: world where
  "world_ab = empty_world
     \<lparr>documents := [\<lparr>doc_id = ''docA'', doc_url = ''http://x/a.pdf''\<rparr>,
                    \<lparr>doc_id = ''docB'', doc_url = ''http://x/b.pdf''\<rparr>],
      document_chunks := [\<lparr>c_id = ''cA'', c_document_id = ''docA'', c_chunk_index = 0,
                           c_chunk_text = py ''ab'', c_pinecone_id = ''docA_0_1234abcd''\<rparr>,
                          \<lparr>c_id = ''cB'', c_document_id = ''docB'', c_chunk_index = 0,
                           c_chunk_text = py ''ba'', c_pinecone_id = ''docB_0_5678abcd''\<rparr>]\<rparr>"

definition shared_index :: pinecone_index where
  "shared_index =
     \<lparr>upsert_reply = (\<lambda>_. None),
      query_reply = (\<lambda>_ _ _. Inr [\<lparr>r_id = ''docA_0_1234abcd'', r_score = 1,
                                     r_full_text = Some (py ''ab''), r_chunk_index = Some 0,
                                     r_document_id = Some ''docA''\<rparr>])\<rparr>"

definition env_shared_index :: env where
  "env_shared_index = demo_env\<lparr>index := Some shared_index\<rparr>"

text \<open>A clause that was made from one of the matches and a chunk row of the table.\<close>

definition clause_of_match :: "world \<Rightarrow> answer_row \<Rightarrow> retrieval_match list \<Rightarrow> clause_row \<Rightarrow> bool" where
  "clause_of_match w answer ms cl \<longleftrightarrow>
     (\<exists>m \<in> set ms. \<exists>ch \<in> set (document_chunks w).
        c_pinecone_id ch = m_id m \<and> cl_chunk_id cl = c_id ch \<and> cl_answer_id cl = a_id answer
        \<and> cl_clause_text cl = take 1000 (m_text m) \<and> cl_similarity_score cl = m_score m)"

text \<open>
  What a chunk row stores of a chunk, and what it means that the vectors of the chunks
  were upserted under the given ids: the store holds, for each chunk in order, a vector
  with that id, the chunk's ordinal and the chunk's full text.
\<close>

definition row_key :: "chunk_row \<Rightarrow> nat \<times> pystr \<times> string" where
  "row_key c = (c_chunk_index c, c_chunk_text c, c_pinecone_id c)"

definition upserted :: "string \<Rightarrow> pystr list \<Rightarrow> string list \<Rightarrow> world \<Rightarrow> world \<Rightarrow> bool" where
  "upserted d chunks ids w w1 \<longleftrightarrow>
     (\<exists>vs. vectors w1 = filter (\<lambda>v. v_id v \<notin> set ids) (vectors w) @ vs
        \<and> map v_id vs = ids \<and> map v_chunk_index vs = [0..<length chunks]
        \<and> map v_full_text vs = chunks \<and> (\<forall>v \<in> set vs. v_document_id v = d))"

text \<open>
  Relations between the world before and after a computation: the record of calls has
  only grown; the chunk rows, the vectors and the ingestion calls are the same; the
  record of calls has grown by a given call first. A relation is steady when it is
  reflexive and transitive, and a computation preserves a relation when every run of it
  relates the world before to the world after.
\<close>

definition grown :: "world \<Rightarrow> world \<Rightarrow> bool" where
  "grown w w' \<longleftrightarrow> prefix (calls w) (calls w')"

definition same_ingestion :: "world \<Rightarrow> world \<Rightarrow> bool" where
  "same_ingestion w w' \<longleftrightarrow>
     document_chunks w' = document_chunks w \<and> vectors w' = vectors w
     \<and> ingestion_calls w' = ingestion_calls w"

definition preserves :: "(world \<Rightarrow> world \<Rightarrow> bool) \<Rightarrow> 'a io \<Rightarrow> bool" where
  "preserves R m \<longleftrightarrow> (\<forall>w. R w (snd (m w)))"

definition steady :: "(world \<Rightarrow> world \<Rightarrow> bool) \<Rightarrow> bool" where
  "steady R \<longleftrightarrow> (\<forall>w. R w w) \<and> (\<forall>a b c. R a b \<longrightarrow> R b c \<longrightarrow> R a c)"

definition begins :: "call \<Rightarrow> world \<Rightarrow> world \<Rightarrow> bool" where
  "begins c w w' \<longleftrightarrow> (\<exists>more. calls w' = calls w @ c # more)"

text \<open>
  A persistence layer in which the call at position 1 of the record of calls raises (from
  a world without calls: the lookup of the chunks), and the world after the first request
  for a document in the small world.
\<close>

definition env_lookup_fails :: env where
  "env_lookup_fails = demo_env\<lparr>db_reply := (\<lambda>k. if k = 1 then Raised else Executed)\<rparr>"

definition world_ingested :: world where
  "world_ingested = empty_world
     \<lparr>documents := [\<lparr>doc_id = ''uuid-0'', doc_url = ''http://x/b.pdf''\<rparr>],
      document_chunks := [\<lparr>c_id = ''uuid-2'', c_document_id = ''uuid-0'', c_chunk_index = 0,
                           c_chunk_text = py ''ab ba ab'', c_pinecone_id = ''local_uuid-0_0_uuid-1''\<rparr>],
      calls := [Select ''documents'', Insert ''documents'', Select ''document_chunks'',
                SessionGet ''http://x/b.pdf'', HttpRequest ''http://x/b.pdf'', PdfRead, ChunkText,
                Insert ''document_chunks''],
      uuids_drawn := 3\<rparr>"


text \<open>
  The chunk rows that the two reads at the start of \<open>process_document_queries\<close> find for
  a URL when both are executed: the rows of the first document with that URL.
\<close>

definition stored_chunks :: "string \<Rightarrow> world \<Rightarrow> chunk_row list" where
  "stored_chunks url w =
     (case filter (\<lambda>d. doc_url d = url) (documents w) of
        [] \<Rightarrow> []
      | document # _ \<Rightarrow> filter (\<lambda>c. c_document_id c = doc_id document) (document_chunks w))"

text \<open>
  A further relation between the world before and after: the documents are the same and
  the chunk rows have grown by rows of one document.
\<close>

definition adds_for :: "string \<Rightarrow> world \<Rightarrow> world \<Rightarrow> bool" where
  "adds_for d w w' \<longleftrightarrow>
     documents w' = documents w
     \<and> (\<exists>rows. document_chunks w' = document_chunks w @ rows \<and> (\<forall>c \<in> set rows. c_document_id c = d))"

text \<open>
  The world after the first request for a document when an index is connected; a PDF
  whose only page reads \<open>* * *\<close>, of which cleaning leaves nothing, and the world after the
  first request for it; and a persistence layer in which the call at position 9 raises
  (after the first request for a document in the small world: the lookup of the chunks
  in the second request).
\<close>

definition world_indexed :: world where
  "world_indexed = empty_world
     \<lparr>documents := [\<lparr>doc_id = ''uuid-0'', doc_url = ''http://x/b.pdf''\<rparr>],
      document_chunks := [\<lparr>c_id = ''uuid-2'', c_document_id = ''uuid-0'', c_chunk_index = 0,
                           c_chunk_text = py ''ab ba ab'', c_pinecone_id = ''uuid-0_0_uuid-1''\<rparr>],
      vectors := [\<lparr>v_id = ''uuid-0_0_uuid-1'', v_values = [], v_document_id = ''uuid-0'',
                   v_chunk_index = 0, v_text = py ''ab ba ab'', v_full_text = py ''ab ba ab''\<rparr>],
      calls := [Select ''documents'', Insert ''documents'', Select ''document_chunks'',
                SessionGet ''http://x/b.pdf'', HttpRequest ''http://x/b.pdf'', PdfRead, ChunkText,
                EncodeChunks [py ''ab ba ab''], Upsert [''uuid-0_0_uuid-1''],
                Insert ''document_chunks''],
      uuids_drawn := 3\<rparr>"

definition env_blank :: env where
  "env_blank = demo_env\<lparr>pdf_reader := (\<lambda>_. Inr [Inr (py ''* * *'')])\<rparr>"

definition world_blank :: world where
  "world_blank = empty_world
     \<lparr>documents := [\<lparr>doc_id = ''uuid-0'', doc_url = ''http://x/b.pdf''\<rparr>],
      calls := [Select ''documents'', Insert ''documents'', Select ''document_chunks'',
                SessionGet ''http://x/b.pdf'', HttpRequest ''http://x/b.pdf'', PdfRead, ChunkText],
      uuids_drawn := 1\<rparr>"

definition env_second_lookup_fails :: env where
  "env_second_lookup_fails = demo_env\<lparr>db_reply := (\<lambda>k. if k = 9 then Raised else Executed)\<rparr>"
section \<open>Properties of cleaning and chunking\<close>

subsection \<open>Regular expressions and runs\<close>

lemma concat_runs: "concat (runs P s) = s"
  by (induction P s rule: runs.induct) auto

lemma re_sub_plus_skip:
  "\<forall>x \<in> set xs. \<not> P x \<Longrightarrow> re_sub_plus P r (xs @ ys) = xs @ re_sub_plus P r ys"
  by (induction xs) auto

lemma re_sub_atleast_skip:
  "\<forall>x \<in> set xs. \<not> P x \<Longrightarrow> re_sub_atleast n P r (xs @ ys) = xs @ re_sub_atleast n P r ys"
  by (induction xs) auto

lemma re_sub_plus_runs:
  "re_sub_plus P r s = concat (map (\<lambda>b. if list_all P b then r else b) (runs P s))"
proof (induction P s rule: runs.induct)
  case (1 P)
  show ?case by simp
next
  case (2 P c cs)
  show ?case
  proof (cases "P c")
    case True
    then have eq: "(\<lambda>d. P d = P c) = P" by auto
    have "list_all P (takeWhile P cs)" by (simp add: list_all_iff) (metis set_takeWhileD)
    with True 2 show ?thesis by (simp add: eq)
  next
    case False
    then have eq: "(\<lambda>d. P d = P c) = (\<lambda>d. \<not> P d)" by auto
    have "cs = takeWhile (\<lambda>d. \<not> P d) cs @ dropWhile (\<lambda>d. \<not> P d) cs" by simp
    then have "re_sub_plus P r cs =
        takeWhile (\<lambda>d. \<not> P d) cs @ re_sub_plus P r (dropWhile (\<lambda>d. \<not> P d) cs)"
      by (metis re_sub_plus_skip set_takeWhileD)
    with False 2 show ?thesis by (simp add: eq)
  qed
qed

lemma takeWhile_append_stop:
  "\<forall>x \<in> set xs. P x \<Longrightarrow> ys = [] \<or> \<not> P (hd ys) \<Longrightarrow> takeWhile P (xs @ ys) = xs"
  by (induction xs) (auto simp: takeWhile_eq_Nil_iff)

lemma re_sub_atleast_short:
  "\<forall>x \<in> set xs. P x \<Longrightarrow> length xs < n \<Longrightarrow> ys = [] \<or> \<not> P (hd ys) \<Longrightarrow>
   re_sub_atleast n P r (xs @ ys) = xs @ re_sub_atleast n P r ys"
proof (induction xs)
  case Nil
  show ?case by simp
next
  case (Cons x xs)
  have "takeWhile P ((x # xs) @ ys) = x # xs"
    using Cons.prems(1,3) by (rule takeWhile_append_stop)
  then have "length (takeWhile P (x # xs @ ys)) < n" using Cons.prems(2) by simp
  then show ?case using Cons by simp
qed

lemma dropWhile_stop: "dropWhile P cs = [] \<or> \<not> P (hd (dropWhile P cs))"
  by (metis hd_dropWhile)

lemma re_sub_atleast_runs:
  "re_sub_atleast n P r s =
     concat (map (\<lambda>b. if list_all P b \<and> n \<le> length b then r else b) (runs P s))"
proof (induction P s rule: runs.induct)
  case (1 P)
  show ?case by simp
next
  case (2 P c cs)
  show ?case
  proof (cases "P c")
    case True
    then have eq: "(\<lambda>d. P d = P c) = P" by auto
    have all: "list_all P (takeWhile P cs)" by (simp add: list_all_iff) (metis set_takeWhileD)
    show ?thesis
    proof (cases "n \<le> Suc (length (takeWhile P cs))")
      case True
      with \<open>P c\<close> 2 all show ?thesis by (simp add: eq)
    next
      case False
      have "re_sub_atleast n P r (takeWhile P cs @ dropWhile P cs) =
            takeWhile P cs @ re_sub_atleast n P r (dropWhile P cs)"
      proof (rule re_sub_atleast_short)
        show "\<forall>x\<in>set (takeWhile P cs). P x" by (metis set_takeWhileD)
        show "length (takeWhile P cs) < n" using False by simp
        show "dropWhile P cs = [] \<or> \<not> P (hd (dropWhile P cs))" by (rule dropWhile_stop)
      qed
      then have "re_sub_atleast n P r cs = takeWhile P cs @ re_sub_atleast n P r (dropWhile P cs)"
        by simp
      with False \<open>P c\<close> 2 all show ?thesis by (simp add: eq)
    qed
  next
    case False
    then have eq: "(\<lambda>d. P d = P c) = (\<lambda>d. \<not> P d)" by auto
    have "cs = takeWhile (\<lambda>d. \<not> P d) cs @ dropWhile (\<lambda>d. \<not> P d) cs" by simp
    then have "re_sub_atleast n P r cs =
        takeWhile (\<lambda>d. \<not> P d) cs @ re_sub_atleast n P r (dropWhile (\<lambda>d. \<not> P d) cs)"
      by (metis re_sub_atleast_skip set_takeWhileD)
    with False 2 show ?thesis by (simp add: eq)
  qed
qed

lemma re_sub_class_filter: "re_sub_class P [] s = filter (\<lambda>c. \<not> P c) s"
  by (induction s) auto

lemma set_strip: "set (strip s) \<subseteq> set s"
  by (auto simp: strip_def dest!: set_dropWhileD)

lemma set_get_overlap_text: "set (get_overlap_text ov s) \<subseteq> set s"
proof -
  have a: "set (py_last ov s) \<subseteq> set s" by (auto simp: py_last_def dest: in_set_dropD)
  have "set (strip (drop i (py_last ov s))) \<subseteq> set s" for i
    using set_strip[of "drop i (py_last ov s)"] set_drop_subset[of i "py_last ov s"] a by blast
  then show ?thesis using a
    by (auto simp: get_overlap_text_def Let_def split: option.splits)
qed

lemma re_split_pieces: "p \<in> set (re_split d s) \<Longrightarrow> c \<in> set p \<Longrightarrow> \<not> d c"
proof (induction d s arbitrary: p rule: re_split.induct)
  case (1 d s)
  show ?case
  proof (cases "dropWhile (\<lambda>c. \<not> d c) s")
    case Nil
    then have "\<forall>x \<in> set s. \<not> d x" by (simp add: dropWhile_eq_Nil_conv)
    moreover have "re_split d s = [s]" by (subst re_split.simps, subst Nil, simp)
    ultimately show ?thesis using "1.prems" by auto
  next
    case (Cons x rest)
    have "re_split d s = takeWhile (\<lambda>c. \<not> d c) s # re_split d (dropWhile d rest)"
      by (subst re_split.simps, subst Cons, simp)
    with "1.prems"(1)
    have "p = takeWhile (\<lambda>c. \<not> d c) s \<or> p \<in> set (re_split d (dropWhile d rest))"
      by simp
    then show ?thesis
    proof
      assume "p = takeWhile (\<lambda>c. \<not> d c) s"
      with "1.prems"(2) show ?thesis by (auto dest: set_takeWhileD)
    next
      assume "p \<in> set (re_split d (dropWhile d rest))"
      with "1.IH"[OF Cons] "1.prems"(2) show ?thesis by blast
    qed
  qed
qed

lemma term_free_subset: "set t \<subseteq> set s \<Longrightarrow> term_free s \<Longrightarrow> term_free t"
  by (auto simp: term_free_def list_all_iff)

lemma term_free_append [simp]: "term_free (s @ t) \<longleftrightarrow> term_free s \<and> term_free t"
  by (auto simp: term_free_def)

lemma term_free_space [simp]: "term_free (py '' '')" "term_free []"
  by (simp_all add: term_free_def py_def is_terminator_def)

lemma sentences_term_free: "s \<in> set (split_into_sentences text0) \<Longrightarrow> term_free s"
proof -
  assume "s \<in> set (split_into_sentences text0)"
  then obtain p where p: "p \<in> set (re_split is_terminator text0)" and s: "s = strip p"
    by (auto simp: split_into_sentences_def)
  from p have "term_free p" by (auto simp: term_free_def list_all_iff dest: re_split_pieces)
  with s show ?thesis using term_free_subset[OF set_strip] by blast
qed

lemma chunk_step_term_free:
  assumes "list_all term_free (fst st)" "term_free (snd st)" "term_free sentence"
  shows "list_all term_free (fst (chunk_step n ov st sentence)) \<and>
         term_free (snd (chunk_step n ov st sentence))"
proof -
  obtain chunks cur where st: "st = (chunks, cur)" by (cases st)
  have "term_free (strip cur)" "term_free (get_overlap_text ov cur)"
    using assms(2) st term_free_subset[OF set_strip] term_free_subset[OF set_get_overlap_text]
    by auto
  then show ?thesis using assms by (simp add: chunk_step_def st)
qed

lemma chunk_loop_term_free:
  "list_all term_free (fst st) \<Longrightarrow> term_free (snd st) \<Longrightarrow> list_all term_free ss \<Longrightarrow>
   list_all term_free (fst (foldl (chunk_step n ov) st ss)) \<and>
   term_free (snd (foldl (chunk_step n ov) st ss))"
proof (induction ss arbitrary: st)
  case Nil
  then show ?case by simp
next
  case (Cons x xs)
  from Cons.prems have "list_all term_free (fst (chunk_step n ov st x)) \<and>
      term_free (snd (chunk_step n ov st x))"
    by (intro chunk_step_term_free) simp_all
  with Cons.IH[of "chunk_step n ov st x"] Cons.prems(3) show ?case by simp
qed


lemmas is_space_numeral = is_space_def[of "numeral k" for k]

lemmas is_terminator_numeral = is_terminator_def[of "numeral k" for k]

lemmas eval_text = split_into_sentences_def re_split.simps py_def strip_def is_space_numeral
  is_terminator_numeral dropWhile_append takeWhile_append chunk_step_def get_overlap_text_def
  py_last_def py_find_def


subsection \<open>Normalisation\<close>

text \<open>
  Claim C7. For every input string, \<open>_clean_text\<close> returns what the four steps of the
  specification give when applied in order: every whitespace run collapsed to one space,
  every character outside the word characters, whitespace and \<open>. , ; : ! ? ( ) -\<close>
  removed, every run of three or more periods collapsed to three periods, and leading
  and trailing whitespace trimmed. The result is a function of the input alone (and of
  the Unicode table \<open>alnum\<close> of the runtime).
\<close>

theorem clean_text_refines_spec:
  "clean_text alnum s =
     spec_trim (spec_collapse_periods (spec_remove_disallowed alnum (spec_collapse_whitespace s)))"
  by (simp add: clean_text_def spec_trim_def strip_def spec_collapse_periods_def
      spec_remove_disallowed_def spec_collapse_whitespace_def re_sub_plus_runs
      re_sub_atleast_runs re_sub_class_filter py_def)

theorem clean_text_refines_spec_witness:
  "clean_text (\<lambda>_. False) (py ''  Hi,  yo @ x.... y.. '') = py ''Hi, yo  x... y..''"
  unfolding clean_text_refines_spec
  by (simp add: spec_trim_def spec_collapse_periods_def spec_remove_disallowed_def
      spec_collapse_whitespace_def py_def is_space_def allowed_char_def is_word_def ascii_word_def)


subsection \<open>Chunks carry no sentence terminator\<close>

text \<open>
  Claim C10. For every input text, no chunk that \<open>chunk_text\<close> produces contains one of
  the characters \<open>.\<close>, \<open>!\<close> and \<open>?\<close>, whatever the chunk size and the overlap.
\<close>

theorem chunks_have_no_terminators:
  "ch \<in> set (chunk_text n ov text0) \<Longrightarrow> c \<in> set ch \<Longrightarrow> c \<notin> set (py ''.!?'')"
proof -
  assume ch: "ch \<in> set (chunk_text n ov text0)" and c: "c \<in> set ch"
  let ?r = "foldl (chunk_step n ov) ([], []) (split_into_sentences text0)"
  have ss: "list_all term_free (split_into_sentences text0)"
    by (simp add: list_all_iff sentences_term_free)
  have inv: "list_all term_free (fst ?r) \<and> term_free (snd ?r)"
    by (rule chunk_loop_term_free) (simp_all add: ss)
  then have "term_free (strip (snd ?r))" using term_free_subset[OF set_strip] by blast
  with inv have "list_all term_free (chunk_text n ov text0)"
    by (cases ?r) (simp add: chunk_text_def)
  with ch have "term_free ch" by (simp add: list_all_iff)
  with c show ?thesis by (simp add: term_free_def list_all_iff is_terminator_def)
qed

lemma sentences_small:
  "split_into_sentences (py ''ab. ba! ab?'') = [py ''ab'', py ''ba'', py ''ab'']"
  by (simp add: eval_text)

lemma chunks_small: "chunk_text 4 2 (py ''ab. ba! ab?'') = [py ''ab ba'', py ''ba ab'']"
  unfolding chunk_text_def sentences_small by (simp add: eval_text)

theorem chunks_have_no_terminators_witness:
  "py ''ab ba'' \<in> set (chunk_text 4 2 (py ''ab. ba! ab?'')) \<and> 98 \<in> set (py ''ab ba'')
   \<and> 98 \<notin> set (py ''.!?'')"
  using chunks_have_no_terminators[of "py ''ab ba''" 4 2 "py ''ab. ba! ab?''" 98]
  by (simp add: chunks_small) (simp add: py_def)


subsection \<open>The chunk length\<close>

lemma sentences_two_500:
  "split_into_sentences (replicate 500 97 @ py ''. '' @ replicate 500 98)
     = [replicate 500 97, replicate 500 98]"
  by (simp add: eval_text)


text \<open>
  Claim C2. With chunk size 1000 and overlap 200, two sentences of 500 characters each
  end up in one chunk of 1001 characters: the guard compares
  \<open>len(current_chunk) + len(sentence)\<close> with the chunk size and leaves out the space that
  joins them. The chunk is longer than 1000 characters and is not a single sentence.
\<close>

theorem chunk_text_exceeds_chunk_size:
  "chunk_text CHUNK_SIZE CHUNK_OVERLAP (replicate 500 97 @ py ''. '' @ replicate 500 98)
     = [replicate 500 97 @ py '' '' @ replicate 500 98]
   \<and> length (replicate 500 (97::nat) @ py '' '' @ replicate 500 98) = 1001
   \<and> split_into_sentences (replicate 500 97 @ py ''. '' @ replicate 500 98)
     = [replicate 500 97, replicate 500 98]"
  unfolding chunk_text_def sentences_two_500 CHUNK_SIZE_def CHUNK_OVERLAP_def
  by (simp add: eval_text)


subsection \<open>Chunks that begin with the overlap of their predecessor\<close>

lemma only_spaces_subset: "set t \<subseteq> set s \<Longrightarrow> only_spaces s \<Longrightarrow> only_spaces t"
  by (auto simp: only_spaces_def list_all_iff)

lemma only_spaces_append [simp]: "only_spaces (s @ t) \<longleftrightarrow> only_spaces s \<and> only_spaces t"
  by (auto simp: only_spaces_def)

lemma only_spaces_Cons [simp]:
  "only_spaces (c # s) \<longleftrightarrow> (is_space c \<longrightarrow> c = SPACE) \<and> only_spaces s"
  by (simp add: only_spaces_def)

lemma only_spaces_space [simp]: "only_spaces [SPACE]" "only_spaces []"
  by (simp_all add: only_spaces_def)

lemma hd_dropWhile_not: "dropWhile P xs \<noteq> [] \<Longrightarrow> \<not> P (hd (dropWhile P xs))"
  by (rule hd_dropWhile)

lemma last_dropWhile: "dropWhile P xs \<noteq> [] \<Longrightarrow> last (dropWhile P xs) = last xs"
  by (induction xs) (auto split: if_splits)

lemma strip_ends:
  assumes "strip s \<noteq> []"
  shows "\<not> is_space (hd (strip s))" "\<not> is_space (last (strip s))"
proof -
  let ?a = "dropWhile is_space s"
  let ?b = "dropWhile is_space (rev ?a)"
  from assms have b: "?b \<noteq> []" by (simp add: strip_def)
  have a: "?a \<noteq> []"
  proof
    assume "?a = []"
    then have "?b = []" by (simp only: rev.simps dropWhile.simps)
    with b show False by simp
  qed
  have "last (strip s) = hd ?b" using b by (simp add: strip_def last_rev)
  with hd_dropWhile_not[OF b] show "\<not> is_space (last (strip s))" by simp
  have "hd (strip s) = last ?b" using b by (simp add: strip_def hd_rev)
  also have "\<dots> = last (rev ?a)" using b by (rule last_dropWhile)
  also have "\<dots> = hd ?a" using a by (simp add: last_rev)
  finally show "\<not> is_space (hd (strip s))" using hd_dropWhile_not[OF a] by simp
qed

lemma strip_tidy: "s \<noteq> [] \<Longrightarrow> \<not> is_space (hd s) \<Longrightarrow> \<not> is_space (last s) \<Longrightarrow> strip s = s"
proof -
  assume a: "s \<noteq> []" "\<not> is_space (hd s)" "\<not> is_space (last s)"
  then have 1: "dropWhile is_space s = s" by (cases s) auto
  from a have "rev s \<noteq> []" "\<not> is_space (hd (rev s))" by (simp_all add: hd_rev)
  then have 2: "dropWhile is_space (rev s) = rev s" by (cases "rev s") auto
  show ?thesis by (simp add: strip_def 1 2)
qed

lemma strip_nonempty: "s \<noteq> [] \<Longrightarrow> \<not> is_space (last s) \<Longrightarrow> strip s \<noteq> []"
proof -
  assume s: "s \<noteq> []" "\<not> is_space (last s)"
  let ?a = "dropWhile is_space s"
  from s have "last s \<in> set s" by simp
  with s(2) have a: "?a \<noteq> []" by (auto simp: dropWhile_eq_Nil_conv)
  then have "last ?a = last s" by (rule last_dropWhile)
  with a s(2) have "\<not> is_space (hd (rev ?a))" "rev ?a \<noteq> []" by (simp_all add: hd_rev)
  then have "dropWhile is_space (rev ?a) = rev ?a" by (cases "rev ?a") auto
  with a show ?thesis by (simp add: strip_def)
qed

lemma tidy_strip: "tidy s \<Longrightarrow> strip s = s"
  by (simp add: tidy_def strip_tidy)

lemma re_split_subset: "p \<in> set (re_split d s) \<Longrightarrow> set p \<subseteq> set s"
proof (induction d s arbitrary: p rule: re_split.induct)
  case (1 d s)
  show ?case
  proof (cases "dropWhile (\<lambda>c. \<not> d c) s")
    case Nil
    have "re_split d s = [s]" by (subst re_split.simps, subst Nil, simp)
    with "1.prems" show ?thesis by simp
  next
    case (Cons x rest)
    have "re_split d s = takeWhile (\<lambda>c. \<not> d c) s # re_split d (dropWhile d rest)"
      by (subst re_split.simps, subst Cons, simp)
    with "1.prems"
    have "p = takeWhile (\<lambda>c. \<not> d c) s \<or> p \<in> set (re_split d (dropWhile d rest))"
      by simp
    then show ?thesis
    proof
      assume "p = takeWhile (\<lambda>c. \<not> d c) s"
      then show ?thesis by (auto dest: set_takeWhileD)
    next
      assume "p \<in> set (re_split d (dropWhile d rest))"
      from "1.IH"[OF Cons this] have "set p \<subseteq> set (dropWhile d rest)" .
      also have "\<dots> \<subseteq> set rest" by (auto dest: set_dropWhileD)
      also have "\<dots> \<subseteq> set (dropWhile (\<lambda>c. \<not> d c) s)" by (auto simp: Cons)
      also have "\<dots> \<subseteq> set s" by (auto dest: set_dropWhileD)
      finally show ?thesis .
    qed
  qed
qed

lemma sentences_tidy:
  assumes "only_spaces text0" "s \<in> set (split_into_sentences text0)"
  shows "tidy s"
proof -
  from assms(2) obtain p where p: "p \<in> set (re_split is_terminator text0)" "strip p \<noteq> []"
    and s: "s = strip p"
    by (auto simp: split_into_sentences_def)
  have "set s \<subseteq> set text0" using set_strip[of p] re_split_subset[OF p(1)] s by blast
  from this assms(1) have "only_spaces s" by (rule only_spaces_subset)
  with strip_ends[OF p(2)] p(2) s show ?thesis by (simp add: tidy_def)
qed

lemma overlap_tidy:
  assumes "tidy s" "0 < ov"
  shows "tidy (get_overlap_text ov s)"
proof (cases "length s \<le> ov")
  case True
  with assms show ?thesis by (simp add: get_overlap_text_def)
next
  case False
  let ?tail = "drop (length s - ov) s"
  from False assms(2) have k: "length s - ov < length s" by simp
  then have ne: "?tail \<noteq> []" by simp
  have lt: "last ?tail = last s" using k by (rule last_drop)
  have sub: "set ?tail \<subseteq> set s" by (rule set_drop_subset)
  from assms(1) have os: "only_spaces ?tail" using only_spaces_subset[OF sub] by (simp add: tidy_def)
  show ?thesis
  proof (cases "SPACE \<in> set ?tail")
    case True
    let ?d = "dropWhile (\<lambda>x. x \<noteq> SPACE) ?tail"
    from True have dne: "?d \<noteq> []" by (simp add: dropWhile_eq_Nil_conv)
    have ld: "last ?d = last s" using last_dropWhile[OF dne] lt by simp
    have sne: "strip ?d \<noteq> []"
      using dne ld assms(1) by (intro strip_nonempty) (simp_all add: tidy_def)
    have "set (strip ?d) \<subseteq> set ?tail" using set_strip[of ?d] by (auto dest: set_dropWhileD)
    from this os have "only_spaces (strip ?d)" by (rule only_spaces_subset)
    with strip_ends[OF sne] sne have "tidy (strip ?d)" by (simp add: tidy_def)
    moreover have "get_overlap_text ov s = strip ?d"
      using False True assms(2)
      by (simp add: get_overlap_text_def py_last_def py_find_def dropWhile_eq_drop)
    ultimately show ?thesis by simp
  next
    case False
    with os have "\<forall>c \<in> set ?tail. \<not> is_space c" by (auto simp: only_spaces_def list_all_iff)
    with hd_in_set[OF ne] last_in_set[OF ne]
    have "\<not> is_space (hd ?tail)" "\<not> is_space (last ?tail)" by blast+
    with ne os have "tidy ?tail" by (simp add: tidy_def)
    moreover have "get_overlap_text ov s = ?tail"
      using False \<open>\<not> length s \<le> ov\<close> assms(2)
      by (simp add: get_overlap_text_def py_last_def py_find_def)
    ultimately show ?thesis by simp
  qed
qed

lemma seams_snoc:
  assumes "seams ov (xs @ [a])" "prefix (get_overlap_text ov a @ [SPACE]) b"
  shows "seams ov ((xs @ [a]) @ [b])"
  unfolding seams_def
proof (intro allI impI)
  fix i assume i: "Suc i < length ((xs @ [a]) @ [b])"
  show "prefix (get_overlap_text ov (((xs @ [a]) @ [b]) ! i) @ [SPACE]) (((xs @ [a]) @ [b]) ! Suc i)"
  proof (cases "Suc i < length (xs @ [a])")
    case True
    then have "((xs @ [a]) @ [b]) ! i = (xs @ [a]) ! i" "((xs @ [a]) @ [b]) ! Suc i = (xs @ [a]) ! Suc i"
      by (simp_all add: nth_append)
    with assms(1) True show ?thesis by (simp add: seams_def)
  next
    case False
    with i have "i = length xs" by simp
    then have "((xs @ [a]) @ [b]) ! i = a" "((xs @ [a]) @ [b]) ! Suc i = b"
      by (simp_all add: nth_append)
    with assms(2) show ?thesis by simp
  qed
qed

lemma seams_extend_last:
  assumes "seams ov (xs @ [a])" "prefix a b"
  shows "seams ov (xs @ [b])"
  unfolding seams_def
proof (intro allI impI)
  fix i assume i: "Suc i < length (xs @ [b])"
  then have i': "Suc i < length (xs @ [a])" by simp
  have s: "prefix (get_overlap_text ov ((xs @ [a]) ! i) @ [SPACE]) ((xs @ [a]) ! Suc i)"
    using assms(1) i' by (simp add: seams_def)
  from i have l: "(xs @ [b]) ! i = (xs @ [a]) ! i" by (simp add: nth_append)
  show "prefix (get_overlap_text ov ((xs @ [b]) ! i) @ [SPACE]) ((xs @ [b]) ! Suc i)"
  proof (cases "Suc i < length xs")
    case True
    then have "(xs @ [b]) ! Suc i = (xs @ [a]) ! Suc i" by (simp add: nth_append)
    with s l show ?thesis by simp
  next
    case False
    with i have "Suc i = length xs" by simp
    then have "(xs @ [b]) ! Suc i = b" "(xs @ [a]) ! Suc i = a" by (simp_all add: nth_append)
    with s l assms(2) show ?thesis by (metis prefix_order.order_trans)
  qed
qed

lemma chunk_step_seam_inv:
  assumes "seam_inv ov st" "tidy sentence" "0 < ov"
  shows "seam_inv ov (chunk_step n ov st sentence)"
proof -
  obtain chunks cur where st: "st = (chunks, cur)" by (cases st)
  from assms(1) st have inv: "cur = [] \<longrightarrow> chunks = []" "cur \<noteq> [] \<longrightarrow> tidy cur"
    "seams ov (chunks @ [cur])" by (simp_all add: seam_inv_def)
  from assms(2) have sn: "sentence \<noteq> []" by (simp add: tidy_def)
  show ?thesis
  proof (cases "cur = []")
    case True
    with inv have "chunks = []" by simp
    with True st assms(2) sn show ?thesis
      by (simp add: chunk_step_def seam_inv_def seams_def)
  next
    case False
    with inv have tc: "tidy cur" by simp
    show ?thesis
    proof (cases "length cur + length sentence > n")
      case True
      let ?seed = "get_overlap_text ov cur"
      let ?new = "?seed @ py '' '' @ sentence"
      from overlap_tidy[OF tc assms(3)] have ts: "tidy ?seed" .
      have tn: "tidy ?new" using ts assms(2) by (simp add: tidy_def py_def)
      have "prefix (?seed @ [SPACE]) ?new" by (simp add: py_def)
      from seams_snoc[OF inv(3) this] have "seams ov ((chunks @ [cur]) @ [?new])" .
      with True False st tn tidy_strip[OF tc] show ?thesis
        by (simp add: chunk_step_def seam_inv_def tidy_def)
    next
      case n: False
      let ?new = "cur @ py '' '' @ sentence"
      have tn: "tidy ?new" using tc assms(2) by (simp add: tidy_def py_def)
      have "prefix cur ?new" by simp
      from seams_extend_last[OF inv(3) this] have "seams ov (chunks @ [?new])" .
      with n False st tn show ?thesis
        by (simp add: chunk_step_def seam_inv_def tidy_def)
    qed
  qed
qed

lemma chunk_loop_seam_inv:
  "seam_inv ov st \<Longrightarrow> list_all tidy ss \<Longrightarrow> 0 < ov \<Longrightarrow>
   seam_inv ov (foldl (chunk_step n ov) st ss)"
proof (induction ss arbitrary: st)
  case Nil
  then show ?case by simp
next
  case (Cons x xs)
  from Cons.prems have "seam_inv ov (chunk_step n ov st x)"
    by (intro chunk_step_seam_inv) simp_all
  with Cons.IH[of "chunk_step n ov st x"] Cons.prems show ?case by simp
qed

lemma chunk_text_seams:
  assumes "only_spaces text0" "0 < ov"
  shows "seams ov (chunk_text n ov text0)"
proof -
  let ?r = "foldl (chunk_step n ov) ([], []) (split_into_sentences text0)"
  have "seam_inv ov ([], [])" by (simp add: seam_inv_def seams_def)
  moreover have "list_all tidy (split_into_sentences text0)"
    using sentences_tidy[OF assms(1)] by (simp add: list_all_iff)
  ultimately have inv: "seam_inv ov ?r" using assms(2) by (rule chunk_loop_seam_inv)
  obtain chunks cur where r: "?r = (chunks, cur)" by (cases ?r)
  show ?thesis
  proof (cases "cur = []")
    case True
    with inv r have "chunks = []" by (simp add: seam_inv_def)
    with True r show ?thesis by (simp add: chunk_text_def seams_def)
  next
    case False
    with inv r have "tidy cur" "seams ov (chunks @ [cur])" by (simp_all add: seam_inv_def)
    with False r tidy_strip[of cur] show ?thesis by (simp add: chunk_text_def)
  qed
qed

lemma set_re_sub_plus:
  "c \<in> set (re_sub_plus P r t) \<Longrightarrow> c \<in> set r \<or> (c \<in> set t \<and> \<not> P c)"
proof (induction P r t rule: re_sub_plus.induct)
  case (1 P r)
  then show ?case by simp
next
  case (2 P r x xs)
  show ?case
  proof (cases "P x")
    case True
    with "2.prems" have "c \<in> set r \<or> c \<in> set (re_sub_plus P r (dropWhile P xs))" by simp
    then show ?thesis using "2.IH"(1)[OF True] by (auto dest: set_dropWhileD)
  next
    case False
    with "2.prems" have "c = x \<or> c \<in> set (re_sub_plus P r xs)" by simp
    then show ?thesis using "2.IH"(2)[OF False] False by auto
  qed
qed

lemma set_re_sub_atleast:
  "c \<in> set (re_sub_atleast k P r t) \<Longrightarrow> c \<in> set r \<or> c \<in> set t"
proof (induction k P r t rule: re_sub_atleast.induct)
  case (1 k P r)
  then show ?case by simp
next
  case (2 k P r x xs)
  show ?case
  proof (cases "P x \<and> k \<le> length (takeWhile P (x # xs))")
    case True
    with "2.prems" have "c \<in> set r \<or> c \<in> set (re_sub_atleast k P r (dropWhile P xs))"
      by (simp split: if_splits)
    then show ?thesis using "2.IH"(1)[OF True] by (auto dest: set_dropWhileD)
  next
    case False
    with "2.prems" have "c = x \<or> c \<in> set (re_sub_atleast k P r xs)"
      by (auto split: if_splits)
    then show ?thesis using "2.IH"(2)[OF False] by auto
  qed
qed

lemma clean_text_only_spaces: "only_spaces (clean_text alnum s)"
proof -
  let ?t1 = "re_sub_plus is_space [SPACE] s"
  let ?t2 = "re_sub_class (\<lambda>c. \<not> allowed_char alnum c) [] ?t1"
  let ?t3 = "re_sub_atleast 3 (\<lambda>c. c = DOT) [DOT, DOT, DOT] ?t2"
  have 1: "only_spaces ?t1"
    using set_re_sub_plus[of _ is_space "[SPACE]" s] by (auto simp: only_spaces_def list_all_iff)
  have "set ?t2 \<subseteq> set ?t1" by (simp add: re_sub_class_filter)
  from this 1 have 2: "only_spaces ?t2" by (rule only_spaces_subset)
  have d: "\<not> is_space DOT" by (simp add: is_space_def)
  have 3: "only_spaces ?t3"
    unfolding only_spaces_def list_all_iff
  proof (intro ballI impI)
    fix c assume c: "c \<in> set ?t3" "is_space c"
    from set_re_sub_atleast[OF c(1)] c(2) d have "c \<in> set ?t2" by auto
    with 2 c(2) show "c = SPACE" by (auto simp: only_spaces_def list_all_iff)
  qed
  have "only_spaces (strip ?t3)" using only_spaces_subset[OF set_strip 3] .
  then show ?thesis by (simp add: clean_text_def py_def)
qed

subsection \<open>The overlap seam\<close>

lemma sentences_hello:
  "split_into_sentences (py ''hello world. '' @ replicate 995 97) = [py ''hello world'', replicate 995 97]"
  by (simp add: eval_text)

theorem overlap_seam_counterexample:
  "chunk_text 1000 200 (py ''hello world. '' @ replicate 995 97)
     = [py ''hello world'', py ''hello world '' @ replicate 995 97]
   \<and> chunk_step 1000 200 ([], py ''hello world'') (replicate 995 97)
     = ([py ''hello world''], py ''hello world '' @ replicate 995 97)
   \<and> spec_overlap_seed 200 (py ''hello world'') = py ''world''
   \<and> py ''hello world '' @ replicate 995 97 \<noteq> spec_overlap_seed 200 (py ''hello world'') @ py '' '' @ replicate 995 97"
  unfolding chunk_text_def sentences_hello
  by (simp add: eval_text spec_overlap_seed_def)


text \<open>
  Claim C3, amended. For a positive overlap: the overlap text of a chunk is the whole
  chunk, untrimmed, when the chunk has at most \<open>chunk_overlap\<close> characters; otherwise
  it is the last \<open>chunk_overlap\<close> characters of the chunk, cut to start at their first
  space and then stripped of surrounding whitespace, or taken verbatim when they hold no
  space. Whenever \<open>chunk_text\<close> closes a non-empty running chunk because the next
  sentence would make it exceed the chunk size, the closed chunk is the running chunk
  stripped, and the next running chunk is the overlap text of the running chunk, a space
  and the sentence. And in the output for a text whose only whitespace is the space
  character (as \<open>_clean_text\<close> returns, by \<open>clean_text_only_spaces\<close>), every chunk
  after the first begins with the overlap text of the chunk before it and a space.
\<close>

theorem overlap_seam_rule:
  assumes "0 < chunk_overlap"
  shows "get_overlap_text chunk_overlap current_chunk =
           (if length current_chunk \<le> chunk_overlap then current_chunk
            else let tail = drop (length current_chunk - chunk_overlap) current_chunk in
                 if SPACE \<in> set tail then strip (dropWhile (\<lambda>c. c \<noteq> SPACE) tail) else tail)
       \<and> (current_chunk \<noteq> [] \<and> length current_chunk + length sentence > chunk_size \<longrightarrow>
            chunk_step chunk_size chunk_overlap (chunks, current_chunk) sentence =
              (chunks @ [strip current_chunk],
               get_overlap_text chunk_overlap current_chunk @ [SPACE] @ sentence))
       \<and> (only_spaces body \<and> Suc i < length (chunk_text chunk_size chunk_overlap body) \<longrightarrow>
            prefix (get_overlap_text chunk_overlap (chunk_text chunk_size chunk_overlap body ! i) @ [SPACE])
                   (chunk_text chunk_size chunk_overlap body ! Suc i))"
proof (intro conjI impI)
  show "get_overlap_text chunk_overlap current_chunk =
           (if length current_chunk \<le> chunk_overlap then current_chunk
            else let tail = drop (length current_chunk - chunk_overlap) current_chunk in
                 if SPACE \<in> set tail then strip (dropWhile (\<lambda>c. c \<noteq> SPACE) tail) else tail)"
    using assms
    by (simp add: get_overlap_text_def py_last_def py_find_def Let_def dropWhile_eq_drop)
next
  assume "current_chunk \<noteq> [] \<and> length current_chunk + length sentence > chunk_size"
  then show "chunk_step chunk_size chunk_overlap (chunks, current_chunk) sentence =
              (chunks @ [strip current_chunk],
               get_overlap_text chunk_overlap current_chunk @ [SPACE] @ sentence)"
    by (simp add: chunk_step_def py_def)
next
  assume a: "only_spaces body \<and> Suc i < length (chunk_text chunk_size chunk_overlap body)"
  then have "seams chunk_overlap (chunk_text chunk_size chunk_overlap body)"
    using chunk_text_seams assms by blast
  with a show "prefix (get_overlap_text chunk_overlap (chunk_text chunk_size chunk_overlap body ! i) @ [SPACE])
                   (chunk_text chunk_size chunk_overlap body ! Suc i)"
    by (simp add: seams_def)
qed

theorem overlap_seam_rule_witness:
  "chunk_step 4 2 ([], py ''ab ba'') (py ''ab'') = ([py ''ab ba''], py ''ba ab'')
   \<and> chunk_text 4 2 (py ''ab. ba! ab?'') = [py ''ab ba'', py ''ba ab'']
   \<and> prefix (get_overlap_text 2 (py ''ab ba'') @ [SPACE]) (py ''ba ab'')"
proof -
  have pos: "0 < (2::nat)" by simp
  note t = overlap_seam_rule[OF pos, where current_chunk="py ''ab ba''"
      and sentence="py ''ab''" and chunk_size=4 and chunks="[]" and body="py ''ab. ba! ab?''"
      and i=0]
  have o: "only_spaces (py ''ab. ba! ab?'')"
    by (simp add: only_spaces_def py_def is_space_numeral)
  have h1: "py ''ab ba'' \<noteq> [] \<and> length (py ''ab ba'') + length (py ''ab'') > 4"
    by (simp add: py_def)
  have h2: "only_spaces (py ''ab. ba! ab?'') \<and> Suc 0 < length (chunk_text 4 2 (py ''ab. ba! ab?''))"
    using o by (simp add: chunks_small)
  from t h1 have a: "chunk_step 4 2 ([], py ''ab ba'') (py ''ab'') =
       ([] @ [strip (py ''ab ba'')], get_overlap_text 2 (py ''ab ba'') @ [SPACE] @ py ''ab'')"
    by blast
  from t h2 have b: "prefix (get_overlap_text 2 (chunk_text 4 2 (py ''ab. ba! ab?'') ! 0) @ [SPACE])
       (chunk_text 4 2 (py ''ab. ba! ab?'') ! Suc 0)"
    by blast
  have b': "prefix (get_overlap_text 2 (py ''ab ba'') @ [SPACE]) (py ''ba ab'')"
    using b unfolding chunks_small by simp
  have a': "chunk_step 4 2 ([], py ''ab ba'') (py ''ab'') = ([py ''ab ba''], py ''ba ab'')"
    using a by (simp add: eval_text)
  from a' b' chunks_small show ?thesis by blast
qed

section \<open>The download\<close>

lemmas str_nat_numeral = str_nat.simps[of "numeral k" for k] str_nat.simps[of 0] str_nat.simps[of 1] str_nat.simps[of "Suc 0"]

lemma sleeps_append: "sleeps (xs @ ys) = sleeps xs @ sleeps ys"
  by (induction xs rule: sleeps.induct) auto

lemma adapter_send_forced_last:
  assumes "\<And>k. \<exists>r. origin env url k = Answers r \<and> status_code r \<in> set status_forcelist"
  shows "adapter_send env url 0 failures w =
           (Inl RetryError, w\<lparr>calls := calls w @ [HttpRequest url]\<rparr>)"
proof -
  obtain r where "origin env url (length (calls w)) = Answers r" "status_code r \<in> set status_forcelist"
    using assms by blast
  then show ?thesis by simp
qed

lemma adapter_send_forced_again:
  assumes "\<And>k. \<exists>r. origin env url k = Answers r \<and> status_code r \<in> set status_forcelist"
  shows "adapter_send env url (Suc retries) failures w =
           adapter_send env url retries (Suc failures)
             (sleep_backoff (Suc failures) (w\<lparr>calls := calls w @ [HttpRequest url]\<rparr>))"
proof -
  obtain r where "origin env url (length (calls w)) = Answers r" "status_code r \<in> set status_forcelist"
    using assms by blast
  then show ?thesis by simp
qed

lemma backoff_times:
  "get_backoff_time (Suc 0) = 0" "get_backoff_time (Suc (Suc 0)) = 2"
  "get_backoff_time (Suc (Suc (Suc 0))) = 4"
  by (simp_all add: get_backoff_time_def backoff_factor_def DEFAULT_BACKOFF_MAX_def)

lemma session_get_forced:
  assumes "\<And>k. \<exists>r. origin env url k = Answers r \<and> status_code r \<in> set status_forcelist"
  shows "session_get env url w =
     (Inl RetryError,
      w\<lparr>calls := calls w @ [SessionGet url, HttpRequest url, HttpRequest url, Sleep 2,
                             HttpRequest url, Sleep 4, HttpRequest url]\<rparr>)"
  by (simp add: session_get_def bind_def record_call_def retry_total_def numeral_3_eq_3
      adapter_send_forced_again[OF assms] adapter_send_forced_last[OF assms]
      sleep_backoff_def backoff_times del: adapter_send.simps)

lemma fetch_forced:
  assumes "take 7 url = ''http://'' \<or> take 8 url = ''https://''"
      and "\<And>k. \<exists>r. origin env url k = Answers r \<and> status_code r \<in> set status_forcelist"
  shows "extract_text_from_url env url w =
     (Inl RetryError,
      w\<lparr>calls := calls w
         @ [SessionGet url, HttpRequest url, HttpRequest url, Sleep 2, HttpRequest url, Sleep 4,
            HttpRequest url, Sleep 1]
         @ [SessionGet url, HttpRequest url, HttpRequest url, Sleep 2, HttpRequest url, Sleep 4,
            HttpRequest url, Sleep 2]
         @ [SessionGet url, HttpRequest url, HttpRequest url, Sleep 2, HttpRequest url, Sleep 4,
            HttpRequest url]\<rparr>)"
proof -
  have d: "download_attempts (session_get env) url 3 0 3 w = (Inl RetryError,
     w\<lparr>calls := calls w
         @ [SessionGet url, HttpRequest url, HttpRequest url, Sleep 2, HttpRequest url, Sleep 4,
            HttpRequest url, Sleep 1]
         @ [SessionGet url, HttpRequest url, HttpRequest url, Sleep 2, HttpRequest url, Sleep 4,
            HttpRequest url, Sleep 2]
         @ [SessionGet url, HttpRequest url, HttpRequest url, Sleep 2, HttpRequest url, Sleep 4,
            HttpRequest url]\<rparr>)"
    by (simp add: numeral_3_eq_3 session_get_forced[OF assms(2)])
  show ?thesis
    using assms(1) by (simp add: extract_text_from_url_def download_def bind_def d raise_def)
qed

lemma fetch_503:
  "extract_text_from_url env_503 ''http://x/a.pdf'' empty_world =
     (Inl RetryError,
      empty_world\<lparr>calls :=
         [SessionGet ''http://x/a.pdf'', HttpRequest ''http://x/a.pdf'', HttpRequest ''http://x/a.pdf'',
          Sleep 2, HttpRequest ''http://x/a.pdf'', Sleep 4, HttpRequest ''http://x/a.pdf'', Sleep 1,
          SessionGet ''http://x/a.pdf'', HttpRequest ''http://x/a.pdf'', HttpRequest ''http://x/a.pdf'',
          Sleep 2, HttpRequest ''http://x/a.pdf'', Sleep 4, HttpRequest ''http://x/a.pdf'', Sleep 2,
          SessionGet ''http://x/a.pdf'', HttpRequest ''http://x/a.pdf'', HttpRequest ''http://x/a.pdf'',
          Sleep 2, HttpRequest ''http://x/a.pdf'', Sleep 4, HttpRequest ''http://x/a.pdf'']\<rparr>)"
proof -
  have f: "\<exists>r. origin env_503 ''http://x/a.pdf'' k = Answers r \<and> status_code r \<in> set status_forcelist" for k
    by (simp add: env_503_def demo_env_def status_forcelist_def)
  show ?thesis
    using fetch_forced[where url="''http://x/a.pdf''" and env=env_503 and w=empty_world, OF _ f]
    by (simp add: empty_world_def)
qed

text \<open>
  The fetch from an origin that answers every request with 503: the sleeps add up to 21
  seconds and the origin receives 12 requests, where the claim has a total wait of
  1 + 2 = 3 seconds and 3 attempts.
\<close>

theorem retry_waits_counterexample:
  "fst (extract_text_from_url env_503 ''http://x/a.pdf'' empty_world) = Inl RetryError
   \<and> sleeps (calls (snd (extract_text_from_url env_503 ''http://x/a.pdf'' empty_world)))
       = [2, 4, 1, 2, 4, 2, 2, 4]
   \<and> sum_list (sleeps (calls (snd (extract_text_from_url env_503 ''http://x/a.pdf'' empty_world)))) = 21
   \<and> sum_list (sleeps (calls (snd (extract_text_from_url env_503 ''http://x/a.pdf'' empty_world)))) \<noteq> 1 + 2
   \<and> length (filter is_http_request
         (calls (snd (extract_text_from_url env_503 ''http://x/a.pdf'' empty_world)))) = 12"
  unfolding fetch_503 by simp


text \<open>
  Claim C5, amended. A fetch of a well-formed URL from an origin that answers every request
  with 503 makes exactly three attempts (three calls of \<open>session.get\<close>) and then fails with
  the \<open>RetryError\<close> that the session raised. The loop sleeps \<open>2 ^ attempt\<close> seconds after
  the first and the second attempt, 1 + 2 = 3 seconds, and not after the last. Inside
  each attempt the mounted retry policy sends four requests and sleeps 2 and 4 seconds
  before the third and the fourth, so the origin receives 12 requests and the sleeps of
  the whole fetch are 2, 4, 1, 2, 4, 2, 2, 4, which is 21 seconds.
\<close>

theorem retry_bound:
  assumes "take 7 url = ''http://'' \<or> take 8 url = ''https://''"
      and "\<And>k. \<exists>r. origin env url k = Answers r \<and> status_code r = 503"
  shows "\<exists>w'. extract_text_from_url env url w = (Inl RetryError, w')
           \<and> calls w' = calls w
                @ [SessionGet url, HttpRequest url, HttpRequest url, Sleep 2, HttpRequest url,
                   Sleep 4, HttpRequest url, Sleep 1]
                @ [SessionGet url, HttpRequest url, HttpRequest url, Sleep 2, HttpRequest url,
                   Sleep 4, HttpRequest url, Sleep 2]
                @ [SessionGet url, HttpRequest url, HttpRequest url, Sleep 2, HttpRequest url,
                   Sleep 4, HttpRequest url]
           \<and> length (filter is_session_get (calls w')) = length (filter is_session_get (calls w)) + 3
           \<and> length (filter is_http_request (calls w')) = length (filter is_http_request (calls w)) + 12
           \<and> sleeps (calls w') = sleeps (calls w) @ [2, 4, 1, 2, 4, 2, 2, 4]
           \<and> sum_list (sleeps (calls w')) = sum_list (sleeps (calls w)) + 21"
proof -
  have f: "\<And>k. \<exists>r. origin env url k = Answers r \<and> status_code r \<in> set status_forcelist"
    using assms(2) by (auto simp: status_forcelist_def)
  show ?thesis
    unfolding fetch_forced[OF assms(1) f]
    by (rule exI, rule conjI, rule refl) (simp add: sleeps_append)
qed

theorem retry_bound_witness:
  "\<exists>w'. extract_text_from_url env_503 ''http://x/a.pdf'' empty_world = (Inl RetryError, w')
      \<and> length (filter is_session_get (calls w')) = 3
      \<and> length (filter is_http_request (calls w')) = 12
      \<and> sleeps (calls w') = [2, 4, 1, 2, 4, 2, 2, 4]"
  using retry_bound[of "''http://x/a.pdf''" env_503 empty_world]
  by (simp add: env_503_def demo_env_def empty_world_def) blast



section \<open>The degraded mode of the Pinecone service\<close>

lemma prefix_make_id: "prefix tag (make_id env tag document_id drawn i)"
  by (simp add: make_id_def)

lemma dummy_ids_result:
  "dummy_ids env tag document_id n w =
     (Inr (map (make_id env tag document_id (uuids_drawn w)) [0..<n]),
      w\<lparr>uuids_drawn := uuids_drawn w + n\<rparr>)"
  by (simp add: dummy_ids_def)

lemma upsert_chunks_encode_fails:
  "embedding_model env chunks = Inl e \<Longrightarrow>
   upsert_chunks env idx chunks document_id w = (Inl e, w\<lparr>calls := calls w @ [EncodeChunks chunks]\<rparr>)"
  by (simp add: upsert_chunks_def encode_chunks_def bind_def record_call_def raise_def)

lemma upsert_chunks_upsert_fails:
  "embedding_model env chunks = Inr embeddings \<Longrightarrow>
   upsert_reply idx (Suc (length (calls w))) = Some e \<Longrightarrow>
   \<exists>w1. upsert_chunks env idx chunks document_id w = (Inl e, w1)"
  by (simp add: upsert_chunks_def encode_chunks_def bind_def record_call_def raise_def ret_def
      make_vectors_def index_upsert_def Let_def)


text \<open>
  Claim C4. Without an index (\<open>self.index is None\<close>) \<open>search_similar_chunks\<close> returns the
  empty list and leaves the world as it is, and \<open>store_chunks\<close> returns one placeholder id
  per chunk, formed with the prefix \<open>local_\<close>. With an index, when the attempt to upsert
  raises, \<open>store_chunks\<close> returns one id per chunk formed with the prefix \<open>fallback_\<close>,
  and when the attempt to query raises, \<open>search_similar_chunks\<close> returns the empty list.
  Neither function ever raises. The last two conjuncts say that the ids so formed are as
  many as the chunks and that each starts with its prefix.
\<close>

theorem degraded_mode_results:
  "(index env = None \<longrightarrow>
       search_similar_chunks env query top_k w = (Inr [], w)
     \<and> store_chunks env chunks document_id w =
         (Inr (map (make_id env ''local_'' document_id (uuids_drawn w)) [0..<length chunks]),
          w\<lparr>uuids_drawn := uuids_drawn w + length chunks\<rparr>))
   \<and> (\<forall>idx e w1. index env = Some idx \<and> upsert_chunks env idx chunks document_id w = (Inl e, w1) \<longrightarrow>
          store_chunks env chunks document_id w =
            (Inr (map (make_id env ''fallback_'' document_id (uuids_drawn w1)) [0..<length chunks]),
             w1\<lparr>uuids_drawn := uuids_drawn w1 + length chunks\<rparr>))
   \<and> (\<forall>idx e w1. index env = Some idx \<and> query_index env idx query top_k w = (Inl e, w1) \<longrightarrow>
          search_similar_chunks env query top_k w = (Inr [], w1))
   \<and> (\<exists>ms w'. search_similar_chunks env query top_k w = (Inr ms, w'))
   \<and> (\<exists>ids w'. store_chunks env chunks document_id w = (Inr ids, w'))
   \<and> length (map (make_id env tag document_id drawn) [0..<length chunks]) = length chunks
   \<and> (\<forall>i. prefix tag (make_id env tag document_id drawn i))"
proof -
  have a: "\<exists>ms w'. search_similar_chunks env query top_k w = (Inr ms, w')"
    by (cases "index env"; cases "query_index env (the (index env)) query top_k w")
       (auto simp: search_similar_chunks_def ret_def try_except_def split: sum.splits)
  have b: "\<exists>ids w'. store_chunks env chunks document_id w = (Inr ids, w')"
    by (cases "index env"; cases "upsert_chunks env (the (index env)) chunks document_id w")
       (auto simp: store_chunks_def dummy_ids_result try_except_def split: sum.splits)
  show ?thesis
    using a b
    by (auto simp: search_similar_chunks_def store_chunks_def ret_def try_except_def
        dummy_ids_result prefix_make_id)
qed


theorem degraded_mode_results_witness:
  "search_similar_chunks demo_env (py ''q'') 5 empty_world = (Inr [], empty_world)
   \<and> fst (store_chunks demo_env [py ''ab'', py ''ba''] ''d'' empty_world)
       = Inr [''local_d_0_uuid-0'', ''local_d_1_uuid-1'']
   \<and> fst (store_chunks env_failing_index [py ''ab'', py ''ba''] ''d'' empty_world)
       = Inr [''fallback_d_0_uuid-2'', ''fallback_d_1_uuid-3'']
   \<and> fst (search_similar_chunks env_failing_index (py ''q'') 5 empty_world) = Inr []"
proof -
  note t1 = degraded_mode_results[of demo_env "py ''q''" 5 empty_world "[py ''ab'', py ''ba'']" "''d''"
      "''local_''" 0]
  note t2 = degraded_mode_results[of env_failing_index "py ''q''" 5 empty_world "[py ''ab'', py ''ba'']" "''d''"
      "''fallback_''" 0]
  have i1: "index demo_env = None" by (simp add: demo_env_def)
  have i2: "index env_failing_index = Some failing_index"
    by (simp add: env_failing_index_def demo_env_def)
  have u: "upsert_chunks env_failing_index failing_index [py ''ab'', py ''ba''] ''d'' empty_world
      = (Inl (OtherError ''unreachable''),
         empty_world\<lparr>calls := [EncodeChunks [py ''ab'', py ''ba''], Upsert [''d_0_uuid-0'', ''d_1_uuid-1'']],
                      uuids_drawn := 2\<rparr>)"
    by (simp add: upsert_chunks_def encode_chunks_def bind_def record_call_def raise_def ret_def
      make_vectors_def index_upsert_def Let_def env_failing_index_def demo_env_def
      failing_index_def empty_world_def make_id_def str_nat_numeral)
  have q: "query_index env_failing_index failing_index (py ''q'') 5 empty_world
      = (Inl (OtherError ''unreachable''),
         empty_world\<lparr>calls := [EncodeQuery (py ''q''), IndexQuery 5]\<rparr>)"
    by (simp add: query_index_def encode_query_def bind_def record_call_def raise_def ret_def
      index_query_def Let_def env_failing_index_def demo_env_def failing_index_def empty_world_def)
  from t1 i1 have c1: "search_similar_chunks demo_env (py ''q'') 5 empty_world = (Inr [], empty_world)"
    and c2: "store_chunks demo_env [py ''ab'', py ''ba''] ''d'' empty_world =
         (Inr (map (make_id demo_env ''local_'' ''d'' (uuids_drawn empty_world)) [0..<length [py ''ab'', py ''ba'']]),
          empty_world\<lparr>uuids_drawn := uuids_drawn empty_world + length [py ''ab'', py ''ba'']\<rparr>)"
    by blast+
  from t2 i2 u have c3: "store_chunks env_failing_index [py ''ab'', py ''ba''] ''d'' empty_world =
       (Inr (map (make_id env_failing_index ''fallback_'' ''d'' 2) [0..<length [py ''ab'', py ''ba'']]),
        empty_world\<lparr>calls := [EncodeChunks [py ''ab'', py ''ba''], Upsert [''d_0_uuid-0'', ''d_1_uuid-1'']],
                      uuids_drawn := 2 + length [py ''ab'', py ''ba'']\<rparr>)"
    by (simp add: empty_world_def)
  from t2 i2 q have c4: "search_similar_chunks env_failing_index (py ''q'') 5 empty_world =
       (Inr [], empty_world\<lparr>calls := [EncodeQuery (py ''q''), IndexQuery 5]\<rparr>)"
    by blast
  show ?thesis
    unfolding c1 c2 c3 c4
    by (simp add: make_id_def demo_env_def env_failing_index_def empty_world_def str_nat_numeral
        upt_conv_Cons)
qed


section \<open>DatabaseService: answers and their clauses\<close>

lemma db_select_tables:
  "db_select env t rows w = (r, w') \<Longrightarrow>
     document_chunks w' = document_chunks w \<and> answer_clauses w' = answer_clauses w
     \<and> answers w' = answers w \<and> vectors w' = vectors w \<and> documents w' = documents w
     \<and> user_queries w' = user_queries w \<and> uuids_drawn w' = uuids_drawn w
     \<and> calls w' = calls w @ [Select t]"
  by (auto simp: db_select_def Let_def split: db_outcome.splits)

lemma db_select_result:
  "db_select env t rows w = (Inr xs, w') \<Longrightarrow> xs = [] \<or> xs = rows w"
  by (auto simp: db_select_def Let_def split: db_outcome.splits)

lemma bindE:
  assumes "bind m f w = (r, w')"
  obtains (fails) e where "m w = (Inl e, w')" "r = Inl e"
        | (goes) x w1 where "m w = (Inr x, w1)" "f x w1 = (r, w')"
  using assms by (auto simp: bind_def split: prod.splits sum.splits)

lemma new_uuid_eq:
  "new_uuid env w = (Inr (uuid4 env (uuids_drawn w)), w\<lparr>uuids_drawn := Suc (uuids_drawn w)\<rparr>)"
  by (simp add: new_uuid_def)

lemma str_nat_small: "n < 10 \<Longrightarrow> str_nat n = [''0123456789'' ! n]"
  by (simp add: str_nat.simps)

lemmas run_defs = str_nat_small process_document_queries_def get_or_create_document_def has_chunks_def
  db_select_def db_insert_def bind_def ret_def raise_def try_except_def new_uuid_def
  create_user_query_def search_similar_chunks_def query_index_def encode_query_def
  record_call_def index_query_def format_match_def generate_answer_def
  create_answer_with_clauses_def Let_def DOCUMENTS_def DOCUMENT_CHUNKS_def USER_QUERIES_def
  ANSWERS_def ANSWER_CLAUSES_def str_nat_numeral strip_def is_space_numeral py_def

lemma clause_of_match_Cons:
  "clause_of_match w answer ms cl \<Longrightarrow> clause_of_match w answer (m # ms) cl"
  by (auto simp: clause_of_match_def)

lemma collect_clauses_sound:
  "collect_clauses env answer ms w = (r, w') \<Longrightarrow>
     document_chunks w' = document_chunks w \<and> answer_clauses w' = answer_clauses w
     \<and> (\<forall>cls. r = Inr cls \<longrightarrow> list_all (clause_of_match w answer ms) cls)"
proof (induction ms arbitrary: w r w')
  case Nil
  then show ?case by (auto simp: ret_def)
next
  case (Cons m ms)
  let ?rows = "\<lambda>w. filter (\<lambda>c. c_pinecone_id c = m_id m) (document_chunks w)"
  from Cons.prems have "bind (db_select env DOCUMENT_CHUNKS ?rows) (\<lambda>found.
       case found of
         chunk # _ \<Rightarrow>
           bind (new_uuid env) (\<lambda>u.
           bind (collect_clauses env answer ms) (\<lambda>more.
           ret (\<lparr>cl_id = u, cl_answer_id = a_id answer, cl_chunk_id = c_id chunk,
                 cl_clause_text = take 1000 (m_text m),
                 cl_similarity_score = m_score m\<rparr> # more)))
       | [] \<Rightarrow> collect_clauses env answer ms) w = (r, w')" by simp
  then show ?case
  proof (elim bindE, goal_cases)
    case (1 e)
    then show ?case using db_select_tables[of env DOCUMENT_CHUNKS ?rows w "Inl e" w'] by simp
  next
    case (2 found w1)
    note t = db_select_tables[OF 2(1)]
    show ?case
    proof (cases found)
      case Nil
      with 2(2) have "collect_clauses env answer ms w1 = (r, w')" by simp
      from Cons.IH[OF this] t show ?thesis
        by (auto simp: list_all_iff clause_of_match_def)
    next
      case (Cons ch rest)
      with db_select_result[OF 2(1)] have "ch \<in> set (?rows w)"
        by (metis list.distinct(1) list.set_intros(1))
      then have f: "ch \<in> set (document_chunks w)" "c_pinecone_id ch = m_id m"
        by simp_all
      from 2(2) Cons have
        "bind (new_uuid env) (\<lambda>u. bind (collect_clauses env answer ms) (\<lambda>more.
           ret (\<lparr>cl_id = u, cl_answer_id = a_id answer, cl_chunk_id = c_id ch,
                 cl_clause_text = take 1000 (m_text m),
                 cl_similarity_score = m_score m\<rparr> # more))) w1 = (r, w')"
        by simp
      then show ?thesis
      proof (elim bindE, goal_cases)
        case (1 e)
        then show ?case by (simp add: new_uuid_eq)
      next
        case (2 u w2 e)
        from 2(1) have w2: "w2 = w1\<lparr>uuids_drawn := Suc (uuids_drawn w1)\<rparr>" by (simp add: new_uuid_eq)
        from Cons.IH[OF 2(2)] t w2 2(3) show ?case by simp
      next
        case (3 u w2 more w3)
        from 3(1) have w2: "w2 = w1\<lparr>uuids_drawn := Suc (uuids_drawn w1)\<rparr>" by (simp add: new_uuid_eq)
        from Cons.IH[OF 3(2)] have ih: "document_chunks w3 = document_chunks w2"
          "answer_clauses w3 = answer_clauses w2" "list_all (clause_of_match w2 answer ms) more"
          by auto
        have same: "clause_of_match w2 answer ms = clause_of_match w answer ms"
          using t w2 by (auto simp: clause_of_match_def fun_eq_iff)
        from 3(3) have r: "r = Inr (\<lparr>cl_id = u, cl_answer_id = a_id answer, cl_chunk_id = c_id ch,
                 cl_clause_text = take 1000 (m_text m),
                 cl_similarity_score = m_score m\<rparr> # more)" and w': "w' = w3"
          by (auto simp: ret_def)
        have "clause_of_match w answer (m # ms) \<lparr>cl_id = u, cl_answer_id = a_id answer, cl_chunk_id = c_id ch,
                 cl_clause_text = take 1000 (m_text m),
                 cl_similarity_score = m_score m\<rparr>"
          using f by (auto simp: clause_of_match_def)
        moreover have "list_all (clause_of_match w answer (m # ms)) more"
          using ih(3) same by (auto simp: list_all_iff intro: clause_of_match_Cons)
        ultimately show ?case using ih t w2 r w' by simp
      qed
    qed
  qed
qed

lemma db_insert_cases:
  assumes "db_insert env t store rows w = (r, w')"
  shows "(r = Inr rows \<and> w' = store (w\<lparr>calls := calls w @ [Insert t]\<rparr>))
       \<or> ((r = Inl APIError \<or> r = Inr []) \<and> w' = w\<lparr>calls := calls w @ [Insert t]\<rparr>)"
  using assms by (auto simp: db_insert_def Let_def split: db_outcome.splits)

lemma run_b:
  "process_document_queries env_shared_index ''http://x/b.pdf'' [py ''q''] world_ab =
     (Inr [py ''q''],
      world_ab\<lparr>user_queries := [\<lparr>q_id = ''uuid-0'', q_document_id = ''docB'', q_query_text = py ''q''\<rparr>],
               answers := [\<lparr>a_id = ''uuid-1'', a_query_id = ''uuid-0'', a_answer_text = py ''q'',
                            a_decision = None, a_amount = None\<rparr>],
               answer_clauses := [\<lparr>cl_id = ''uuid-2'', cl_answer_id = ''uuid-1'', cl_chunk_id = ''cA'',
                                   cl_clause_text = py ''ab'', cl_similarity_score = 1\<rparr>],
               calls := [Select ''documents'', Select ''document_chunks'', Insert ''user_queries'',
                         EncodeQuery (py ''q''), IndexQuery 5, GenerateContent (py ''q''),
                         Insert ''answers'', Select ''document_chunks'', Insert ''answer_clauses''],
               uuids_drawn := 3\<rparr>)"
  by (simp add: run_defs world_ab_def env_shared_index_def shared_index_def demo_env_def empty_world_def)

theorem clause_of_other_document_counterexample:
  "answer_clauses (snd (process_document_queries env_shared_index ''http://x/b.pdf'' [py ''q''] world_ab))
     = [\<lparr>cl_id = ''uuid-2'', cl_answer_id = ''uuid-1'', cl_chunk_id = ''cA'',
         cl_clause_text = py ''ab'', cl_similarity_score = 1\<rparr>]
   \<and> map doc_id (filter (\<lambda>d. doc_url d = ''http://x/b.pdf'') (documents world_ab)) = [''docB'']
   \<and> map c_document_id (filter (\<lambda>c. c_id c = ''cA'') (document_chunks world_ab)) = [''docA'']"
  unfolding run_b by (simp add: world_ab_def empty_world_def)


text \<open>
  Claim C8, amended. Whatever \<open>create_answer_with_clauses\<close> returns, it leaves the chunk
  table as it is, and every clause it stores comes from one of the matches and from a
  chunk row of the table whose \<open>pinecone_id\<close> is the id of that match: the clause
  references that row, carries the match's text cut to at most 1000 characters and the
  match's similarity score. A match whose id has no chunk row gives no clause. The row
  is looked up by the id alone, so it may belong to any document.
\<close>

theorem answer_clauses_reference_chunks:
  assumes "create_answer_with_clauses env query_id answer_text ms w = (r, w')"
  shows "document_chunks w' = document_chunks w
       \<and> (\<exists>new. answer_clauses w' = answer_clauses w @ new
            \<and> (\<forall>cl \<in> set new. \<exists>m \<in> set ms. \<exists>ch \<in> set (document_chunks w').
                   c_pinecone_id ch = m_id m \<and> cl_chunk_id cl = c_id ch
                 \<and> cl_clause_text cl = take 1000 (m_text m)
                 \<and> length (cl_clause_text cl) \<le> 1000
                 \<and> cl_similarity_score cl = m_score m))"
proof -
  let ?goal = "\<lambda>w'. document_chunks w' = document_chunks w
       \<and> (\<exists>new. answer_clauses w' = answer_clauses w @ new
            \<and> (\<forall>cl \<in> set new. \<exists>m \<in> set ms. \<exists>ch \<in> set (document_chunks w').
                   c_pinecone_id ch = m_id m \<and> cl_chunk_id cl = c_id ch
                 \<and> cl_clause_text cl = take 1000 (m_text m)
                 \<and> length (cl_clause_text cl) \<le> 1000
                 \<and> cl_similarity_score cl = m_score m))"
  have unchanged: "?goal v" if "document_chunks v = document_chunks w" "answer_clauses v = answer_clauses w" for v
    using that by simp
  from assms show ?thesis
    unfolding create_answer_with_clauses_def Let_def
  proof (elim bindE, goal_cases)
    case (1 e)
    then show ?case by (intro unchanged) (simp_all add: new_uuid_eq)
  next
    case (2 u w1 e)
    then show ?case using db_insert_cases[OF 2(2)]
      by (intro unchanged) (auto simp: new_uuid_eq)
  next
    case (3 u w1 data w2)
    from 3(1) have w1: "w1 = w\<lparr>uuids_drawn := Suc (uuids_drawn w)\<rparr>" by (simp add: new_uuid_eq)
    from db_insert_cases[OF 3(2)] w1 have w2: "document_chunks w2 = document_chunks w"
      "answer_clauses w2 = answer_clauses w" by auto
    show ?case
    proof (cases data)
      case Nil
      with 3(3) w2 show ?thesis by (intro unchanged) (auto simp: raise_def)
    next
      case (Cons answer rest)
      with 3(3) have "bind (collect_clauses env answer ms) (\<lambda>clauses_data.
             bind (if clauses_data \<noteq> []
                   then db_insert env ANSWER_CLAUSES
                          (\<lambda>w. w\<lparr>answer_clauses := answer_clauses w @ clauses_data\<rparr>) clauses_data
                   else ret []) (\<lambda>_. ret answer)) w2 = (r, w')" by simp
      then show ?thesis
      proof (elim bindE, goal_cases)
        case (1 e)
        from collect_clauses_sound[OF 1(1)] w2 show ?case by (intro unchanged) simp_all
      next
        case (2 cls w3 e)
        note c = collect_clauses_sound[OF 2(1)]
        show ?case
        proof (cases "cls = []")
          case True
          with 2(2) c w2 show ?thesis by (intro unchanged) (auto simp: ret_def)
        next
          case False
          with 2(2) have "db_insert env ANSWER_CLAUSES
                          (\<lambda>w. w\<lparr>answer_clauses := answer_clauses w @ cls\<rparr>) cls w3 = (Inl e, w')"
            by simp
          from db_insert_cases[OF this] c w2 show ?thesis by (intro unchanged) auto
        qed
      next
        case (3 cls w3 x w4)
        note c = collect_clauses_sound[OF 3(1)]
        from 3(3) have w': "w' = w4" by (simp add: ret_def)
        show ?case
        proof (cases "cls = []")
          case True
          with 3(2) c w2 w' show ?thesis by (intro unchanged) (auto simp: ret_def)
        next
          case False
          with 3(2) have "db_insert env ANSWER_CLAUSES
                          (\<lambda>w. w\<lparr>answer_clauses := answer_clauses w @ cls\<rparr>) cls w3 = (Inr x, w4)"
            by simp
          from db_insert_cases[OF this]
          have "(w4 = w3\<lparr>calls := calls w3 @ [Insert ANSWER_CLAUSES], answer_clauses := answer_clauses w3 @ cls\<rparr>)
              \<or> w4 = w3\<lparr>calls := calls w3 @ [Insert ANSWER_CLAUSES]\<rparr>" by auto
          then show ?thesis
          proof
            assume "w4 = w3\<lparr>calls := calls w3 @ [Insert ANSWER_CLAUSES]\<rparr>"
            with c w2 w' show ?thesis by (intro unchanged) auto
          next
            assume a: "w4 = w3\<lparr>calls := calls w3 @ [Insert ANSWER_CLAUSES],
                                answer_clauses := answer_clauses w3 @ cls\<rparr>"
            from c have all: "list_all (clause_of_match w2 answer ms) cls" by simp
            have dc: "document_chunks w' = document_chunks w" using a w' c w2 by simp
            have ac: "answer_clauses w' = answer_clauses w @ cls" using a w' c w2 by simp
            have "\<forall>cl \<in> set cls. \<exists>m \<in> set ms. \<exists>ch \<in> set (document_chunks w').
                   c_pinecone_id ch = m_id m \<and> cl_chunk_id cl = c_id ch
                 \<and> cl_clause_text cl = take 1000 (m_text m)
                 \<and> length (cl_clause_text cl) \<le> 1000
                 \<and> cl_similarity_score cl = m_score m"
              using all dc w2 by (fastforce simp: list_all_iff clause_of_match_def)
            with dc ac show ?thesis by blast
          qed
        qed
      qed
    qed
  qed
qed


theorem answer_clauses_reference_chunks_witness:
  "answer_clauses (snd (create_answer_with_clauses env_shared_index ''q1'' (py ''yes'')
      [\<lparr>m_id = ''docA_0_1234abcd'', m_text = py ''ab'', m_score = 1, m_chunk_index = 0,
        m_document_id = ''docA''\<rparr>] world_ab))
     = [\<lparr>cl_id = ''uuid-1'', cl_answer_id = ''uuid-0'', cl_chunk_id = ''cA'',
         cl_clause_text = py ''ab'', cl_similarity_score = 1\<rparr>]
   \<and> document_chunks (snd (create_answer_with_clauses env_shared_index ''q1'' (py ''yes'')
      [\<lparr>m_id = ''docA_0_1234abcd'', m_text = py ''ab'', m_score = 1, m_chunk_index = 0,
        m_document_id = ''docA''\<rparr>] world_ab)) = document_chunks world_ab"
proof -
  let ?x = "create_answer_with_clauses env_shared_index ''q1'' (py ''yes'')
      [\<lparr>m_id = ''docA_0_1234abcd'', m_text = py ''ab'', m_score = 1, m_chunk_index = 0,
        m_document_id = ''docA''\<rparr>] world_ab"
  have "?x = (fst ?x, snd ?x)" by simp
  from answer_clauses_reference_chunks[OF this]
  have a: "document_chunks (snd ?x) = document_chunks world_ab" by blast
  have b: "answer_clauses (snd ?x) = [\<lparr>cl_id = ''uuid-1'', cl_answer_id = ''uuid-0'', cl_chunk_id = ''cA'',
         cl_clause_text = py ''ab'', cl_similarity_score = 1\<rparr>]"
    by (simp add: run_defs world_ab_def env_shared_index_def shared_index_def demo_env_def
        empty_world_def)
  from a b show ?thesis by blast
qed


section \<open>Storing the chunks of a document\<close>

lemma map_enumerate_index:
  "map (\<lambda>(i, x). f i) (enumerate n xs) = map f [n..<n + length xs]"
proof -
  have "map (\<lambda>(i, x). f i) (enumerate n xs) = map (f \<circ> fst) (enumerate n xs)"
    by (simp add: case_prod_unfold comp_def)
  also have "\<dots> = map f (map fst (enumerate n xs))" by (simp only: map_map)
  also have "\<dots> = map f [n..<n + length xs]" by simp
  finally show ?thesis .
qed

lemma map_enumerate_item:
  "map (\<lambda>(i, x). g x) (enumerate n xs) = map g xs"
proof -
  have "map (\<lambda>(i, x). g x) (enumerate n xs) = map (g \<circ> snd) (enumerate n xs)"
    by (simp add: case_prod_unfold comp_def)
  also have "\<dots> = map g (map snd (enumerate n xs))" by (simp only: map_map)
  also have "\<dots> = map g xs" by simp
  finally show ?thesis .
qed

lemma map_enumerate_index3:
  "map (\<lambda>(i, x, y). f i) (enumerate n xs) = map f [n..<n + length xs]"
  using map_enumerate_index[of f n xs] by (simp add: case_prod_unfold)

lemma create_document_chunk_cases:
  assumes "create_document_chunk env d i t p w = (r, w')"
  shows "vectors w' = vectors w \<and>
     ((\<exists>row. r = Inr row \<and> document_chunks w' = document_chunks w @ [row]
          \<and> c_chunk_index row = i \<and> c_chunk_text row = t \<and> c_pinecone_id row = p
          \<and> c_document_id row = d)
      \<or> ((\<exists>e. r = Inl e) \<and> document_chunks w' = document_chunks w))"
  using assms
  by (auto simp: create_document_chunk_def bind_def new_uuid_def db_insert_def Let_def ret_def
      raise_def split: db_outcome.splits)

lemma store_rows:
  "for_each xs (\<lambda>(i, t, p). bind (create_document_chunk env d i t p) (\<lambda>_. ret ())) w = (r, w') \<Longrightarrow>
   \<exists>rows. document_chunks w' = document_chunks w @ rows
      \<and> map row_key rows = take (length rows) xs
      \<and> (\<forall>c \<in> set rows. c_document_id c = d)
      \<and> vectors w' = vectors w
      \<and> (r = Inr () \<longrightarrow> length rows = length xs)"
proof (induction xs arbitrary: w)
  case Nil
  then show ?case by (auto simp: ret_def)
next
  case (Cons x xs)
  let ?F = "\<lambda>(i, t, p). bind (create_document_chunk env d i t p) (\<lambda>_. ret ())"
  obtain i t p where x: "x = (i, t, p)" by (cases x)
  from Cons.prems have "bind (?F x) (\<lambda>_. for_each xs ?F) w = (r, w')" by simp
  then show ?case
  proof (cases rule: bindE)
    case (fails e)
    from fails(1) have "bind (create_document_chunk env d i t p) (\<lambda>_. ret ()) w = (Inl e, w')"
      by (simp add: x)
    then obtain w1 r1 where c: "create_document_chunk env d i t p w = (r1, w1)"
      and "r1 = Inl e \<and> w1 = w' \<or> (\<exists>row. r1 = Inr row \<and> ret () w1 = (Inl e :: exn + unit, w'))"
      by (cases rule: bindE) auto
    then have "r1 = Inl e" "w1 = w'" by (auto simp: ret_def)
    with create_document_chunk_cases[OF c] fails(2) show ?thesis
      by (intro exI[of _ "[]"]) auto
  next
    case (goes u w1)
    from goes(1) have "bind (create_document_chunk env d i t p) (\<lambda>_. ret ()) w = (Inr u, w1)"
      by (simp add: x)
    then obtain row where c: "create_document_chunk env d i t p w = (Inr row, w1)"
      by (cases rule: bindE) (auto simp: ret_def)
    from Cons.IH[OF goes(2)] obtain rows where rows:
      "document_chunks w' = document_chunks w1 @ rows" "map row_key rows = take (length rows) xs"
      "\<forall>c \<in> set rows. c_document_id c = d" "vectors w' = vectors w1"
      "r = Inr () \<longrightarrow> length rows = length xs" by blast
    from create_document_chunk_cases[OF c]
    have row: "document_chunks w1 = document_chunks w @ [row]" "row_key row = x"
      "c_document_id row = d" "vectors w1 = vectors w"
      by (auto simp: row_key_def x)
    show ?thesis using rows row by (intro exI[of _ "row # rows"]) auto
  qed
qed

lemma make_vectors_eq:
  "make_vectors env d pairs w = (r, w1) \<Longrightarrow>
     \<exists>vs. r = Inr vs \<and> map v_id vs = map (make_id env [] d (uuids_drawn w)) [0..<length pairs]
        \<and> map v_chunk_index vs = [0..<length pairs]
        \<and> map v_full_text vs = map fst pairs
        \<and> (\<forall>v \<in> set vs. v_document_id v = d)
        \<and> document_chunks w1 = document_chunks w \<and> vectors w1 = vectors w"
proof -
  assume a: "make_vectors env d pairs w = (r, w1)"
  let ?mk = "\<lambda>(i, chunk, embedding).
            \<lparr>v_id = make_id env [] d (uuids_drawn w) i, v_values = embedding,
             v_document_id = d, v_chunk_index = i, v_text = take 1000 chunk,
             v_full_text = chunk\<rparr>"
  let ?vs = "map ?mk (enumerate 0 pairs)"
  from a have r: "r = Inr ?vs" and w1: "w1 = w\<lparr>uuids_drawn := uuids_drawn w + length pairs\<rparr>"
    by (auto simp: make_vectors_def)
  have 1: "map v_id ?vs = map (make_id env [] d (uuids_drawn w)) [0..<length pairs]"
    using map_enumerate_index3[of "make_id env [] d (uuids_drawn w)" 0 pairs]
    by (simp add: case_prod_unfold comp_def)
  have 2: "map v_chunk_index ?vs = [0..<length pairs]"
    using map_enumerate_index3[of "\<lambda>i. i" 0 pairs]
    by (simp add: case_prod_unfold comp_def)
  have 3: "map v_full_text ?vs = map fst pairs"
    using map_enumerate_item[of fst 0 pairs]
    by (simp add: case_prod_unfold comp_def)
  have 4: "\<forall>v \<in> set ?vs. v_document_id v = d" by auto
  show ?thesis using r w1 1 2 3 4 by (intro exI[of _ ?vs]) simp
qed

lemma encode_chunks_cases:
  assumes "encode_chunks env chunks w = (r, w1)"
  shows "r = embedding_model env chunks \<and> document_chunks w1 = document_chunks w
       \<and> vectors w1 = vectors w"
  using assms
  by (auto simp: encode_chunks_def bind_def record_call_def raise_def ret_def split: sum.splits)

lemma index_upsert_cases:
  assumes "index_upsert idx vs w = (r, w1)"
  shows "document_chunks w1 = document_chunks w \<and>
     ((\<exists>e. r = Inl e) \<and> vectors w1 = vectors w
      \<or> r = Inr () \<and> vectors w1 = filter (\<lambda>v. v_id v \<notin> set (map v_id vs)) (vectors w) @ vs)"
  using assms by (auto simp: index_upsert_def Let_def split: option.splits)

lemma upsert_chunks_cases:
  assumes "upsert_chunks env idx chunks d w = (r, w1)"
      and "\<And>embeddings. embedding_model env chunks = Inr embeddings \<Longrightarrow> length embeddings = length chunks"
  shows "document_chunks w1 = document_chunks w \<and>
     ((\<exists>e. r = Inl e) \<and> vectors w1 = vectors w
      \<or> (\<exists>k. r = Inr (map (make_id env [] d k) [0..<length chunks])
             \<and> upserted d chunks (map (make_id env [] d k) [0..<length chunks]) w w1))"
  using assms(1) unfolding upsert_chunks_def
proof (elim bindE, goal_cases)
  case (1 e)
  with encode_chunks_cases[OF 1(1)] show ?case by simp
next
  case (2 embs wa e)
  with encode_chunks_cases[OF 2(1)] make_vectors_eq[OF 2(2)] show ?case by auto
next
  case (3 embs wa vs wb e)
  from make_vectors_eq[OF 3(2)] encode_chunks_cases[OF 3(1)] index_upsert_cases[OF 3(3)] 3(4)
  show ?case by auto
next
  case (4 embs wa vs wb u wc)
  from encode_chunks_cases[OF 4(1)] have e: "embedding_model env chunks = Inr embs"
    "document_chunks wa = document_chunks w" "vectors wa = vectors w" by auto
  from assms(2)[OF e(1)] have len: "length (zip chunks embs) = length chunks"
    "map fst (zip chunks embs) = chunks" by simp_all
  from make_vectors_eq[OF 4(2)] len have v:
    "map v_id vs = map (make_id env [] d (uuids_drawn wa)) [0..<length chunks]"
    "map v_chunk_index vs = [0..<length chunks]" "map v_full_text vs = chunks"
    "\<forall>v \<in> set vs. v_document_id v = d" "document_chunks wb = document_chunks wa"
    "vectors wb = vectors wa" by auto
  from index_upsert_cases[OF 4(3)] have u:
    "document_chunks wc = document_chunks wb"
    "vectors wc = filter (\<lambda>v. v_id v \<notin> set (map v_id vs)) (vectors wb) @ vs" by auto
  from 4(4) have r: "r = Inr (map v_id vs)" "w1 = wc" by (auto simp: ret_def)
  have "upserted d chunks (map (make_id env [] d (uuids_drawn wa)) [0..<length chunks]) w w1"
    unfolding upserted_def using v u e r by (intro exI[of _ vs]) simp
  with r v u e show ?case by auto
qed

lemma store_chunks_cases:
  assumes "\<And>embeddings. embedding_model env chunks = Inr embeddings \<Longrightarrow> length embeddings = length chunks"
  shows "\<exists>tag k w1. tag \<in> {[], ''local_'', ''fallback_''}
      \<and> store_chunks env chunks d w = (Inr (map (make_id env tag d k) [0..<length chunks]), w1)
      \<and> document_chunks w1 = document_chunks w
      \<and> (vectors w1 = vectors w \<or> upserted d chunks (map (make_id env tag d k) [0..<length chunks]) w w1)"
proof (cases "index env")
  case None
  then show ?thesis
    by (intro exI[of _ "''local_''"] exI[of _ "uuids_drawn w"]) (simp add: store_chunks_def dummy_ids_result)
next
  case (Some idx)
  obtain r wu where u: "upsert_chunks env idx chunks d w = (r, wu)" by fastforce
  from upsert_chunks_cases[OF u assms] consider
    (bad) e where "r = Inl e" "vectors wu = vectors w" "document_chunks wu = document_chunks w"
  | (good) k where "r = Inr (map (make_id env [] d k) [0..<length chunks])"
      "upserted d chunks (map (make_id env [] d k) [0..<length chunks]) w wu"
      "document_chunks wu = document_chunks w"
    by auto
  then show ?thesis
  proof cases
    case bad
    then show ?thesis using Some u
      by (intro exI[of _ "''fallback_''"] exI[of _ "uuids_drawn wu"])
         (simp add: store_chunks_def try_except_def dummy_ids_result)
  next
    case good
    then show ?thesis using Some u
      by (intro exI[of _ "[]"] exI[of _ k] exI[of _ wu]) (simp add: store_chunks_def try_except_def)
  qed
qed

lemmas run_defs2 = run_defs store_document_chunks_def store_chunks_def upsert_chunks_def
  encode_chunks_def make_vectors_def index_upsert_def create_document_chunk_def dummy_ids_def
  make_id_def

lemma run_store:
  "store_document_chunks env_shared_index ''d'' [py ''ab'', py ''ba''] empty_world =
     (Inr (),
      empty_world
        \<lparr>document_chunks :=
           [\<lparr>c_id = ''uuid-2'', c_document_id = ''d'', c_chunk_index = 0,
             c_chunk_text = py ''ab'', c_pinecone_id = ''d_0_uuid-0''\<rparr>,
            \<lparr>c_id = ''uuid-3'', c_document_id = ''d'', c_chunk_index = 1,
             c_chunk_text = py ''ba'', c_pinecone_id = ''d_1_uuid-1''\<rparr>],
         vectors :=
           [\<lparr>v_id = ''d_0_uuid-0'', v_values = [], v_document_id = ''d'', v_chunk_index = 0,
             v_text = py ''ab'', v_full_text = py ''ab''\<rparr>,
            \<lparr>v_id = ''d_1_uuid-1'', v_values = [], v_document_id = ''d'', v_chunk_index = 1,
             v_text = py ''ba'', v_full_text = py ''ba''\<rparr>],
         calls := [EncodeChunks [py ''ab'', py ''ba''], Upsert [''d_0_uuid-0'', ''d_1_uuid-1''],
                   Insert ''document_chunks'', Insert ''document_chunks''],
         uuids_drawn := 4\<rparr>)"
  by (simp add: run_defs2 env_shared_index_def shared_index_def demo_env_def empty_world_def
      enumerate_eq_zip upt_conv_Cons)


text \<open>
  Claim C6, amended. When \<open>_store_document_chunks\<close> returns for a document with N chunks (the
  embedder giving one embedding per text when it returns), \<open>store_chunks\<close> has returned
  N ids, the i-th of the form \<open>{tag}{document_id}_{i}_{uuid8}\<close>, in the order of the
  chunks, and N chunk rows have been added in the chunker's order: their
  \<open>chunk_index\<close> values are 0, 1, ..., N-1, their texts are the chunks and their
  \<open>pinecone_id\<close>s are the ids, so each chunk is paired with its own id; where vectors
  were upserted, the vector under the i-th id holds ordinal i and the i-th chunk. For a
  document that had no rows, its rows are then exactly those, with the ordinals
  0, ..., N-1 and no gap or duplicate. A document that had rows keeps them: when it is
  ingested again (as it is when the lookup of its chunks raises) it has every ordinal
  once more.
\<close>

theorem ordinal_density_and_id_order:
  assumes "store_document_chunks env document_id chunks w = (Inr (), w')"
      and "\<And>embeddings. embedding_model env chunks = Inr embeddings \<Longrightarrow> length embeddings = length chunks"
  shows "\<exists>ids rows tag k w1.
       store_chunks env chunks document_id w = (Inr ids, w1)
     \<and> ids = map (\<lambda>i. tag @ document_id @ ''_'' @ str_nat i @ ''_'' @ take 8 (uuid4 env (k + i)))
                [0..<length chunks]
     \<and> document_chunks w' = document_chunks w @ rows
     \<and> map c_chunk_index rows = [0..<length chunks]
     \<and> map c_chunk_text rows = chunks
     \<and> map c_pinecone_id rows = ids
     \<and> list_all (\<lambda>c. c_document_id c = document_id) rows
     \<and> (vectors w' = vectors w \<or> upserted document_id chunks ids w w')
     \<and> (filter (\<lambda>c. c_document_id c = document_id) (document_chunks w) = [] \<longrightarrow>
          map c_chunk_index (filter (\<lambda>c. c_document_id c = document_id) (document_chunks w'))
            = [0..<length chunks])"
proof -
  from store_chunks_cases[OF assms(2), where d=document_id and w=w] obtain tag k w1 where
    s: "store_chunks env chunks document_id w =
          (Inr (map (make_id env tag document_id k) [0..<length chunks]), w1)"
    "document_chunks w1 = document_chunks w"
    "vectors w1 = vectors w \<or> upserted document_id chunks (map (make_id env tag document_id k) [0..<length chunks]) w w1"
    by blast
  let ?ids = "map (make_id env tag document_id k) [0..<length chunks]"
  let ?xs = "enumerate 0 (zip chunks ?ids)"
  from assms(1) s(1) have
    "for_each ?xs (\<lambda>(i, t, p). bind (create_document_chunk env document_id i t p) (\<lambda>_. ret ())) w1
       = (Inr (), w')"
    by (simp add: store_document_chunks_def bind_def)
  from store_rows[OF this] obtain rows where rows:
    "document_chunks w' = document_chunks w1 @ rows" "map row_key rows = ?xs"
    "\<forall>c \<in> set rows. c_document_id c = document_id" "vectors w' = vectors w1"
    by auto
  have 1: "map c_chunk_index rows = map fst ?xs"
    using arg_cong[OF rows(2), of "map fst"] by (simp add: row_key_def comp_def)
  have 2: "map c_chunk_text rows = map (fst \<circ> snd) ?xs"
    using arg_cong[OF rows(2), of "map (fst \<circ> snd)"] by (simp add: row_key_def comp_def)
  have 3: "map c_pinecone_id rows = map (snd \<circ> snd) ?xs"
    using arg_cong[OF rows(2), of "map (snd \<circ> snd)"] by (simp add: row_key_def comp_def)
  have a1: "map c_chunk_index rows = [0..<length chunks]" using 1 by simp
  have a2: "map c_chunk_text rows = chunks"
    unfolding 2 map_map[symmetric] by simp
  have a3: "map c_pinecone_id rows = ?ids"
    unfolding 3 map_map[symmetric] by simp
  have 4: "filter (\<lambda>c. c_document_id c = document_id) rows = rows" using rows(3) by simp
  have 5: "vectors w' = vectors w \<or> upserted document_id chunks ?ids w w'"
    using s(3) rows(4) by (auto simp: upserted_def)
  show ?thesis
    using s(1,2) rows(1,3) a1 a2 a3 4 5
    by (intro exI[of _ ?ids] exI[of _ rows] exI[of _ tag] exI[of _ k] exI[of _ w1])
       (simp add: make_id_def list_all_iff)
qed


theorem ordinal_density_and_id_order_witness:
  "fst (store_document_chunks env_shared_index ''d'' [py ''ab'', py ''ba''] empty_world) = Inr ()
   \<and> (\<exists>rows. document_chunks (snd (store_document_chunks env_shared_index ''d'' [py ''ab'', py ''ba''] empty_world))
         = document_chunks empty_world @ rows
       \<and> map c_chunk_index rows = [0, 1]
       \<and> map c_chunk_text rows = [py ''ab'', py ''ba''])"
proof -
  have c: "length embeddings = length [py ''ab'', py ''ba'']"
    if "embedding_model env_shared_index [py ''ab'', py ''ba''] = Inr embeddings" for embeddings
    using that by (auto simp: env_shared_index_def demo_env_def)
  from ordinal_density_and_id_order[OF run_store c]
  show ?thesis unfolding run_store by (auto simp: upt_conv_Cons)
qed


section \<open>The controller\<close>

subsection \<open>What a computation preserves\<close>

lemma preservesD: "preserves R m \<Longrightarrow> m w = (r, w') \<Longrightarrow> R w w'"
  by (auto simp: preserves_def dest: spec[of _ w])

lemma grown_refl [simp]: "grown w w"
  by (simp add: grown_def)

lemma grown_trans: "grown a b \<Longrightarrow> grown b c \<Longrightarrow> grown a c"
  by (auto simp: grown_def)

lemma grown_append [simp]: "grown w (w\<lparr>calls := calls w @ cs\<rparr>)"
  by (simp add: grown_def)

lemma grown_other [simp]:
  "grown w (w\<lparr>uuids_drawn := n\<rparr>)" "grown w (w\<lparr>vectors := vs\<rparr>)"
  "grown w (w\<lparr>documents := ds\<rparr>)" "grown w (w\<lparr>document_chunks := cs\<rparr>)"
  "grown w (w\<lparr>user_queries := qs\<rparr>)" "grown w (w\<lparr>answers := as\<rparr>)"
  "grown w (w\<lparr>answer_clauses := ls\<rparr>)"
  by (simp_all add: grown_def)

lemma same_ingestion_refl [simp]: "same_ingestion w w"
  by (simp add: same_ingestion_def)

lemma same_ingestion_trans: "same_ingestion a b \<Longrightarrow> same_ingestion b c \<Longrightarrow> same_ingestion a c"
  by (auto simp: same_ingestion_def)

lemma same_ingestion_call [simp]:
  "\<not> is_ingestion_call c \<Longrightarrow> same_ingestion w (w\<lparr>calls := calls w @ [c]\<rparr>)"
  by (simp add: same_ingestion_def ingestion_calls_def)

lemma same_ingestion_other [simp]:
  "same_ingestion w (w\<lparr>uuids_drawn := n\<rparr>)"
  "same_ingestion w (w\<lparr>documents := ds\<rparr>)"
  "same_ingestion w (w\<lparr>user_queries := qs\<rparr>)" "same_ingestion w (w\<lparr>answers := as\<rparr>)"
  "same_ingestion w (w\<lparr>answer_clauses := ls\<rparr>)"
  by (simp_all add: same_ingestion_def ingestion_calls_def)

lemma steady_grown [simp]: "steady grown"
  unfolding steady_def using grown_trans by auto

lemma steady_same_ingestion [simp]: "steady same_ingestion"
  unfolding steady_def using same_ingestion_trans by auto

lemma preserves_ret [intro!]: "steady R \<Longrightarrow> preserves R (ret x)"
  by (simp add: preserves_def ret_def steady_def)

lemma preserves_raise [intro!]: "steady R \<Longrightarrow> preserves R (raise e)"
  by (simp add: preserves_def raise_def steady_def)

lemma preserves_bind [intro!]:
  assumes "steady R" "preserves R m" "\<And>x. preserves R (f x)"
  shows "preserves R (bind m f)"
  unfolding preserves_def
proof
  fix w
  obtain r w1 where m: "m w = (r, w1)" by fastforce
  from preservesD[OF assms(2) m] have 1: "R w w1" .
  show "R w (snd (bind m f w))"
  proof (cases r)
    case (Inl e)
    with m 1 show ?thesis by (simp add: bind_def)
  next
    case (Inr x)
    from assms(3)[of x] have "R w1 (snd (f x w1))" by (simp add: preserves_def)
    with 1 assms(1) have "R w (snd (f x w1))" unfolding steady_def by blast
    with m Inr show ?thesis by (simp add: bind_def)
  qed
qed

lemma preserves_try [intro!]:
  assumes "steady R" "preserves R m" "\<And>e. preserves R (h e)"
  shows "preserves R (try_except m h)"
  unfolding preserves_def
proof
  fix w
  obtain r w1 where m: "m w = (r, w1)" by fastforce
  from preservesD[OF assms(2) m] have 1: "R w w1" .
  show "R w (snd (try_except m h w))"
  proof (cases r)
    case (Inr x)
    with m 1 show ?thesis by (simp add: try_except_def)
  next
    case (Inl e)
    from assms(3)[of e] have "R w1 (snd (h e w1))" by (simp add: preserves_def)
    with 1 assms(1) have "R w (snd (h e w1))" unfolding steady_def by blast
    with m Inl show ?thesis by (simp add: try_except_def)
  qed
qed

lemma preserves_if [intro!]:
  "preserves R a \<Longrightarrow> preserves R b \<Longrightarrow> preserves R (if c then a else b)"
  by simp

lemma preserves_case_list [intro!]:
  "preserves R a \<Longrightarrow> (\<And>x xs. preserves R (b x xs)) \<Longrightarrow>
   preserves R (case l of [] \<Rightarrow> a | x # xs \<Rightarrow> b x xs)"
  by (cases l) simp_all

lemma preserves_case_sum [intro!]:
  "(\<And>x. preserves R (a x)) \<Longrightarrow> (\<And>y. preserves R (b y)) \<Longrightarrow>
   preserves R (case s of Inl x \<Rightarrow> a x | Inr y \<Rightarrow> b y)"
  by (cases s) simp_all

lemma preserves_case_option [intro!]:
  "preserves R a \<Longrightarrow> (\<And>x. preserves R (b x)) \<Longrightarrow>
   preserves R (case s of None \<Rightarrow> a | Some x \<Rightarrow> b x)"
  by (cases s) simp_all

lemma preserves_case_prod [intro!]:
  "(\<And>x y. preserves R (f x y)) \<Longrightarrow> preserves R (case p of (x, y) \<Rightarrow> f x y)"
  by (cases p) simp

lemma preserves_let [intro!]: "preserves R (f x) \<Longrightarrow> preserves R (let y = x in f y)"
  by simp

lemma grown_record_call [intro!]: "preserves grown (record_call c)"
  by (simp add: preserves_def record_call_def)

lemma same_record_call [intro!]: "\<not> is_ingestion_call c \<Longrightarrow> preserves same_ingestion (record_call c)"
  by (simp add: preserves_def record_call_def)

lemma grown_new_uuid [intro!]: "preserves grown (new_uuid env)"
  by (simp add: preserves_def new_uuid_def)

lemma same_new_uuid [intro!]: "preserves same_ingestion (new_uuid env)"
  by (simp add: preserves_def new_uuid_def)

lemma grown_db_select [intro!]: "preserves grown (db_select env t rows)"
  by (simp add: preserves_def db_select_def Let_def split: db_outcome.splits)

lemma same_db_select [intro!]: "preserves same_ingestion (db_select env t rows)"
  by (simp add: preserves_def db_select_def Let_def split: db_outcome.splits)

lemma grown_db_insert [intro!]:
  "(\<And>w. grown w (store w)) \<Longrightarrow> preserves grown (db_insert env t store rows)"
  using grown_trans[OF grown_append]
  by (auto simp: preserves_def db_insert_def Let_def split: db_outcome.splits)

lemma same_db_insert [intro!]:
  "(\<And>w. same_ingestion w (store w)) \<Longrightarrow> preserves same_ingestion (db_insert env t store rows)"
proof -
  assume a: "\<And>w. same_ingestion w (store w)"
  have "same_ingestion w (store (w\<lparr>calls := calls w @ [Insert t]\<rparr>))" for w
    using same_ingestion_trans[OF same_ingestion_call a, of "Insert t" w] by simp
  then show ?thesis
    by (auto simp: preserves_def db_insert_def Let_def split: db_outcome.splits)
qed

lemma same_create_user_query: "preserves same_ingestion (create_user_query env d q)"
  unfolding create_user_query_def by (intro preserves_bind preserves_let) auto

lemma same_index_query: "preserves same_ingestion (index_query idx emb k)"
  by (simp add: preserves_def index_query_def Let_def split: sum.splits)

lemma same_format_matches: "preserves same_ingestion (format_matches raw)"
  by (induction raw) auto

lemma same_encode_query: "preserves same_ingestion (encode_query env q)"
  unfolding encode_query_def by auto

lemma same_search: "preserves same_ingestion (search_similar_chunks env q k)"
  unfolding search_similar_chunks_def query_index_def
  by (auto intro!: same_index_query same_format_matches same_encode_query)

lemma same_generate_answer: "preserves same_ingestion (generate_answer env q ms)"
  unfolding generate_answer_def
  by (intro preserves_try) (auto simp: preserves_def ret_def split: sum.splits)

lemma same_collect_clauses: "preserves same_ingestion (collect_clauses env a ms)"
  by (induction ms) auto

lemma same_create_answer: "preserves same_ingestion (create_answer_with_clauses env qid txt ms)"
  unfolding create_answer_with_clauses_def
  by (intro preserves_bind preserves_let) (auto intro!: same_collect_clauses)

lemma same_answer_questions: "preserves same_ingestion (answer_questions env d qs)"
  by (induction qs)
     (auto intro!: same_create_user_query same_search same_generate_answer same_create_answer)

lemma same_get_or_create_document: "preserves same_ingestion (get_or_create_document env url)"
  unfolding get_or_create_document_def
  by (intro preserves_bind preserves_let preserves_case_list) auto

lemma same_has_chunks: "preserves same_ingestion (has_chunks env d)"
  unfolding has_chunks_def by auto


subsection \<open>What the stages leave of the documents and the chunk rows\<close>

lemma adds_refl [simp]: "adds_for j w w"
  by (simp add: adds_for_def)

lemma adds_trans: "adds_for j a b \<Longrightarrow> adds_for j b c \<Longrightarrow> adds_for j a c"
  by (fastforce simp: adds_for_def)

lemma adds_other [simp]:
  "adds_for j w (w\<lparr>calls := cs\<rparr>)"
  "adds_for j w (w\<lparr>uuids_drawn := n\<rparr>)" "adds_for j w (w\<lparr>vectors := vs\<rparr>)"
  "adds_for j w (w\<lparr>user_queries := qs\<rparr>)" "adds_for j w (w\<lparr>answers := as\<rparr>)"
  "adds_for j w (w\<lparr>answer_clauses := ls\<rparr>)"
  by (simp_all add: adds_for_def)

lemma adds_row [simp]:
  "c_document_id c = j \<Longrightarrow> adds_for j w (w\<lparr>document_chunks := document_chunks w @ [c]\<rparr>)"
  by (simp add: adds_for_def)

lemma steady_adds [simp]: "steady (adds_for j)"
  unfolding steady_def using adds_trans by auto

lemma adds_record_call [intro!]: "preserves (adds_for j) (record_call c)"
  by (simp add: preserves_def record_call_def)

lemma adds_new_uuid [intro!]: "preserves (adds_for j) (new_uuid env)"
  by (simp add: preserves_def new_uuid_def)

lemma adds_db_select [intro!]: "preserves (adds_for j) (db_select env t rows)"
  by (simp add: preserves_def db_select_def Let_def split: db_outcome.splits)

lemma adds_db_insert [intro!]:
  "(\<And>w. adds_for j w (store w)) \<Longrightarrow> preserves (adds_for j) (db_insert env t store rows)"
proof -
  assume a: "\<And>w. adds_for j w (store w)"
  have "adds_for j w (store (w\<lparr>calls := calls w @ [Insert t]\<rparr>))" for w
    by (rule adds_trans[OF adds_other(1) a])
  then show ?thesis
    by (auto simp: preserves_def db_insert_def Let_def split: db_outcome.splits)
qed

lemma adds_sleep_backoff [simp]: "adds_for j w (sleep_backoff n w)"
  by (simp add: sleep_backoff_def Let_def)

lemma adds_adapter_send: "preserves (adds_for j) (adapter_send env url n failures)"
  unfolding preserves_def
proof (induction n arbitrary: failures)
  case 0
  show ?case by (auto simp: Let_def split: origin_reply.splits)
next
  case (Suc n)
  have "adds_for j w (snd (adapter_send env url n (Suc failures)
           (sleep_backoff (Suc failures) (w\<lparr>calls := calls w @ [HttpRequest url]\<rparr>))))" for w
    using adds_trans[OF adds_trans[OF adds_other(1)[of j w "calls w @ [HttpRequest url]"] adds_sleep_backoff]] Suc
    by blast
  then show ?case by (auto simp: Let_def split: origin_reply.splits)
qed

lemma adds_session_get: "preserves (adds_for j) (session_get env url)"
  unfolding session_get_def by (auto intro!: adds_adapter_send)

lemma adds_download_attempts:
  assumes "preserves (adds_for j) (get url)"
  shows "adds_for j w (snd (download_attempts get url m a n w))"
proof (induction n arbitrary: w a)
  case 0
  show ?case by simp
next
  case (Suc n)
  obtain r w1 where g: "get url w = (r, w1)" by fastforce
  from preservesD[OF assms g] have 1: "adds_for j w w1" .
  have "adds_for j (w1\<lparr>calls := calls w1 @ [Sleep (2 ^ a)]\<rparr>)
     (snd (download_attempts get url m (Suc a) n (w1\<lparr>calls := calls w1 @ [Sleep (2 ^ a)]\<rparr>)))"
    by (rule Suc.IH)
  from adds_trans[OF adds_trans[OF 1 adds_other(1)] this]
  have 2: "adds_for j w (snd (download_attempts get url m (Suc a) n (w1\<lparr>calls := calls w1 @ [Sleep (2 ^ a)]\<rparr>)))" .
  show ?case using g 1 2 by (auto split: sum.splits exn.splits)
qed

lemma adds_read_pdf: "preserves (adds_for j) (read_pdf env bytes)"
  unfolding read_pdf_def by (auto simp: Let_def)

lemma adds_download: "preserves (adds_for j) (download (session_get env) url)"
proof -
  have "preserves (adds_for j) (download_attempts (session_get env) url 3 0 3)"
    unfolding preserves_def
    using adds_download_attempts[where get="session_get env" and url=url, OF adds_session_get]
    by blast
  then show ?thesis unfolding download_def by auto
qed

lemma adds_extract_text: "preserves (adds_for j) (extract_text_from_url env url)"
  unfolding extract_text_from_url_def
  by (intro preserves_bind preserves_ret adds_download adds_read_pdf steady_adds)

lemma adds_chunk_text_io: "preserves (adds_for j) (chunk_text_io s)"
  unfolding chunk_text_io_def by auto

lemma adds_dummy_ids: "preserves (adds_for j) (dummy_ids env tag d n)"
  by (simp add: preserves_def dummy_ids_def)

lemma adds_encode_chunks: "preserves (adds_for j) (encode_chunks env chunks)"
  unfolding encode_chunks_def by auto

lemma adds_make_vectors: "preserves (adds_for j) (make_vectors env d pairs)"
  by (simp add: preserves_def make_vectors_def)

lemma adds_index_upsert: "preserves (adds_for j) (index_upsert idx vs)"
proof -
  have "adds_for j w (w\<lparr>calls := cs, vectors := vs'\<rparr>)" for w cs vs'
    by (simp add: adds_for_def)
  then show ?thesis
    by (simp add: preserves_def index_upsert_def Let_def split: option.splits)
qed

lemma adds_upsert_chunks: "preserves (adds_for j) (upsert_chunks env idx chunks d)"
  unfolding upsert_chunks_def
  by (intro preserves_bind preserves_ret adds_encode_chunks adds_make_vectors
      adds_index_upsert steady_adds)

lemma adds_store_chunks: "preserves (adds_for j) (store_chunks env chunks d)"
  unfolding store_chunks_def by (auto intro!: adds_dummy_ids adds_upsert_chunks)

lemma adds_create_document_chunk: "preserves (adds_for d) (create_document_chunk env d i t p)"
  unfolding create_document_chunk_def by (intro preserves_bind preserves_let) auto

lemma adds_for_each: "(\<And>x. preserves (adds_for j) (f x)) \<Longrightarrow> preserves (adds_for j) (for_each xs f)"
  by (induction xs) auto

lemma adds_store_document_chunks: "preserves (adds_for d) (store_document_chunks env d chunks)"
  unfolding store_document_chunks_def
  by (intro preserves_bind adds_for_each) (auto intro!: adds_store_chunks adds_create_document_chunk)

lemma adds_ingest: "preserves (adds_for d) (ingest env url d)"
  unfolding ingest_def
  by (intro preserves_bind adds_extract_text adds_chunk_text_io adds_store_document_chunks steady_adds)

lemma adds_has_chunks: "preserves (adds_for j) (has_chunks env d)"
  unfolding has_chunks_def by auto

lemma adds_create_user_query: "preserves (adds_for j) (create_user_query env d q)"
  unfolding create_user_query_def by (intro preserves_bind preserves_let) auto

lemma adds_format_matches: "preserves (adds_for j) (format_matches raw)"
  by (induction raw) auto

lemma adds_encode_query: "preserves (adds_for j) (encode_query env q)"
  unfolding encode_query_def by auto

lemma adds_index_query: "preserves (adds_for j) (index_query idx emb k)"
  by (simp add: preserves_def index_query_def Let_def split: sum.splits)

lemma adds_search: "preserves (adds_for j) (search_similar_chunks env q k)"
  unfolding search_similar_chunks_def query_index_def
  by (auto intro!: adds_format_matches adds_encode_query adds_index_query)

lemma adds_generate_answer: "preserves (adds_for j) (generate_answer env q ms)"
  unfolding generate_answer_def
  by (intro preserves_try) (auto simp: preserves_def ret_def split: sum.splits)

lemma adds_collect_clauses: "preserves (adds_for j) (collect_clauses env a ms)"
  by (induction ms) auto

lemma adds_create_answer: "preserves (adds_for j) (create_answer_with_clauses env qid txt ms)"
  unfolding create_answer_with_clauses_def
  by (intro preserves_bind preserves_let) (auto intro!: adds_collect_clauses)

lemma adds_answer_questions: "preserves (adds_for j) (answer_questions env d qs)"
  by (induction qs)
     (auto intro!: adds_create_user_query adds_search adds_generate_answer adds_create_answer)


subsection \<open>Two requests in sequence\<close>

lemma resolve_document:
  assumes "db_reply env (length (calls w)) = Executed"
      and "get_or_create_document env url w = (r, wa)"
  shows "document_chunks wa = document_chunks w
     \<and> (case r of
          Inl e \<Rightarrow> filter (\<lambda>d. doc_url d = url) (documents w) = []
        | Inr document \<Rightarrow>
            (\<exists>rest. filter (\<lambda>d. doc_url d = url) (documents wa) = document # rest)
            \<and> (filter (\<lambda>d. doc_url d = url) (documents w) = []
               \<or> (\<exists>rest. filter (\<lambda>d. doc_url d = url) (documents w) = document # rest)))"
  using assms
  by (auto simp: get_or_create_document_def bind_def db_select_def db_insert_def new_uuid_def
      ret_def raise_def Let_def split: list.splits db_outcome.splits)

lemma resolved_again:
  assumes "stored_chunks url w \<noteq> []"
      and "db_reply env (length (calls w)) = Executed"
      and "db_reply env (Suc (length (calls w))) = Executed"
  shows "\<exists>document wa wb. get_or_create_document env url w = (Inr document, wa)
          \<and> has_chunks env (doc_id document) wa = (Inr True, wb)
          \<and> documents wa = documents w"
proof -
  from assms(1) obtain document rest where
    f: "filter (\<lambda>d. doc_url d = url) (documents w) = document # rest"
    and c: "filter (\<lambda>c. c_document_id c = doc_id document) (document_chunks w) \<noteq> []"
    by (auto simp: stored_chunks_def split: list.splits)
  have g: "get_or_create_document env url w =
             (Inr document, w\<lparr>calls := calls w @ [Select DOCUMENTS]\<rparr>)"
    using f assms(2) by (simp add: get_or_create_document_def bind_def db_select_def ret_def Let_def)
  have h: "has_chunks env (doc_id document) (w\<lparr>calls := calls w @ [Select DOCUMENTS]\<rparr>) =
             (Inr True, w\<lparr>calls := calls w @ [Select DOCUMENTS, Select DOCUMENT_CHUNKS]\<rparr>)"
    using c assms(3)
    by (simp add: has_chunks_def try_except_def bind_def db_select_def ret_def Let_def)
  show ?thesis using g h by simp
qed

lemma skips_ingestion:
  assumes "get_or_create_document env pdf_url w = (Inr document, w1)"
      and "has_chunks env (doc_id document) w1 = (Inr True, w2)"
  shows "process_document_queries env pdf_url questions w = answer_questions env document questions w2"
    and "same_ingestion w (snd (process_document_queries env pdf_url questions w))"
    and "documents (snd (process_document_queries env pdf_url questions w)) = documents w1"
proof -
  show e: "process_document_queries env pdf_url questions w = answer_questions env document questions w2"
    using assms by (simp add: process_document_queries_def bind_def ret_def)
  have "same_ingestion w w1" using preservesD[OF same_get_or_create_document assms(1)] .
  moreover have "same_ingestion w1 w2" using preservesD[OF same_has_chunks assms(2)] .
  moreover have "same_ingestion w2 (snd (answer_questions env document questions w2))"
    using same_answer_questions by (simp add: preserves_def)
  ultimately have "same_ingestion w (snd (answer_questions env document questions w2))"
    using same_ingestion_trans by blast
  with e show "same_ingestion w (snd (process_document_queries env pdf_url questions w))" by simp
  have "adds_for [] w1 w2" using preservesD[OF adds_has_chunks assms(2)] .
  moreover have "adds_for [] w2 (snd (answer_questions env document questions w2))"
    using adds_answer_questions by (simp add: preserves_def)
  ultimately have "adds_for [] w1 (snd (answer_questions env document questions w2))"
    using adds_trans by blast
  with e show "documents (snd (process_document_queries env pdf_url questions w)) = documents w1"
    by (simp add: adds_for_def)
qed

lemma first_request_stores:
  assumes "db_reply env (length (calls w)) = Executed"
      and "process_document_queries env url questions w = (result, w1)"
      and "document_chunks w1 \<noteq> document_chunks w \<or> stored_chunks url w \<noteq> []"
  shows "stored_chunks url w1 \<noteq> []"
proof -
  obtain r wa where g: "get_or_create_document env url w = (r, wa)" by fastforce
  note res = resolve_document[OF assms(1) g]
  show ?thesis
  proof (cases r)
    case (Inl e)
    with g assms(2) have "w1 = wa"
      by (simp add: process_document_queries_def bind_def)
    with res Inl have "document_chunks w1 = document_chunks w" "stored_chunks url w = []"
      by (simp_all add: stored_chunks_def)
    with assms(3) show ?thesis by simp
  next
    case (Inr document)
    let ?rest = "bind (has_chunks env (doc_id document)) (\<lambda>processed.
       bind (if \<not> processed then ingest env url (doc_id document) else ret ()) (\<lambda>_.
       answer_questions env document questions))"
    have "preserves (adds_for (doc_id document)) ?rest"
      by (intro preserves_bind preserves_if preserves_ret steady_adds adds_has_chunks adds_ingest
          adds_answer_questions)
    moreover have "?rest wa = (result, w1)"
      using g Inr assms(2) by (simp add: process_document_queries_def bind_def)
    ultimately have "adds_for (doc_id document) wa w1" by (rule preservesD)
    then obtain rows where
      d: "documents w1 = documents wa"
      and rows: "document_chunks w1 = document_chunks wa @ rows"
        "\<forall>c \<in> set rows. c_document_id c = doc_id document"
      by (auto simp: adds_for_def)
    from res Inr obtain rest where
      f: "filter (\<lambda>d. doc_url d = url) (documents wa) = document # rest"
      and o: "filter (\<lambda>d. doc_url d = url) (documents w) = []
               \<or> (\<exists>rest. filter (\<lambda>d. doc_url d = url) (documents w) = document # rest)"
      and k: "document_chunks wa = document_chunks w"
      by auto
    have s: "stored_chunks url w1 =
        filter (\<lambda>c. c_document_id c = doc_id document) (document_chunks w) @ rows"
      using f d rows k by (simp add: stored_chunks_def)
    show ?thesis
    proof (cases "rows = []")
      case False
      with s show ?thesis by simp
    next
      case True
      with rows k assms(3) have n: "stored_chunks url w \<noteq> []" by simp
      with o obtain rest' where "filter (\<lambda>d. doc_url d = url) (documents w) = document # rest'"
        by (auto simp: stored_chunks_def)
      with n have "filter (\<lambda>c. c_document_id c = doc_id document) (document_chunks w) \<noteq> []"
        by (simp add: stored_chunks_def)
      with s show ?thesis by simp
    qed
  qed
qed

lemma second_request_skips:
  assumes "process_document_queries env pdf_url questions w = (result, w1)"
      and "document_chunks w1 \<noteq> document_chunks w \<or> stored_chunks pdf_url w \<noteq> []"
      and "db_reply env (length (calls w)) = Executed"
      and "db_reply env (length (calls w1)) = Executed"
      and "db_reply env (Suc (length (calls w1))) = Executed"
  shows "same_ingestion w1 (snd (process_document_queries env pdf_url later_questions w1))"
    and "documents (snd (process_document_queries env pdf_url later_questions w1)) = documents w1"
proof -
  from first_request_stores[OF assms(3,1,2)] have "stored_chunks pdf_url w1 \<noteq> []" .
  from resolved_again[OF this assms(4,5)] obtain document wa wb where
    g: "get_or_create_document env pdf_url w1 = (Inr document, wa)"
    and h: "has_chunks env (doc_id document) wa = (Inr True, wb)"
    and d: "documents wa = documents w1"
    by blast
  from skips_ingestion(2)[OF g h]
  show "same_ingestion w1 (snd (process_document_queries env pdf_url later_questions w1))" .
  from skips_ingestion(3)[OF g h] d
  show "documents (snd (process_document_queries env pdf_url later_questions w1)) = documents w1" by simp
qed


subsection \<open>Idempotent ingestion\<close>

text \<open>
  Claim C1, amended. For every document URL: if the persistence layer resolves the document
  and reports existing chunks for its id, \<open>process_document_queries\<close> goes straight to the
  questions; the run makes no call of the ingestion (no fetch, no PDF read, no chunking,
  no embedding of chunks, no upsert) and leaves the chunk rows and the vectors as they
  were. Hence, of two requests in sequence for the same URL, whatever the first returned:
  if the first stored at least one chunk row (or the document that the URL resolves
  already had one), and the persistence layer executes the lookup of the document in
  both requests and the lookup of the chunks in the second, then the second request
  makes no call of the ingestion and leaves the documents, the chunk rows and the vectors
  exactly as the first left them. A document whose text yields no chunk is not covered:
  every request fetches it again.
\<close>

theorem idempotent_ingestion:
  "(\<forall>document wa wb.
        get_or_create_document env pdf_url w = (Inr document, wa)
      \<and> has_chunks env (doc_id document) wa = (Inr True, wb) \<longrightarrow>
          process_document_queries env pdf_url questions w = answer_questions env document questions wb
        \<and> ingestion_calls (snd (process_document_queries env pdf_url questions w)) = ingestion_calls w
        \<and> document_chunks (snd (process_document_queries env pdf_url questions w)) = document_chunks w
        \<and> vectors (snd (process_document_queries env pdf_url questions w)) = vectors w)
   \<and> (\<forall>result w1.
        process_document_queries env pdf_url questions w = (result, w1)
      \<and> (document_chunks w1 \<noteq> document_chunks w \<or> stored_chunks pdf_url w \<noteq> [])
      \<and> db_reply env (length (calls w)) = Executed
      \<and> db_reply env (length (calls w1)) = Executed
      \<and> db_reply env (Suc (length (calls w1))) = Executed \<longrightarrow>
          ingestion_calls (snd (process_document_queries env pdf_url later_questions w1)) = ingestion_calls w1
        \<and> documents (snd (process_document_queries env pdf_url later_questions w1)) = documents w1
        \<and> document_chunks (snd (process_document_queries env pdf_url later_questions w1)) = document_chunks w1
        \<and> vectors (snd (process_document_queries env pdf_url later_questions w1)) = vectors w1)"
proof (intro conjI allI impI)
  fix document wa wb
  assume a: "get_or_create_document env pdf_url w = (Inr document, wa)
      \<and> has_chunks env (doc_id document) wa = (Inr True, wb)"
  then have g: "get_or_create_document env pdf_url w = (Inr document, wa)"
    and h: "has_chunks env (doc_id document) wa = (Inr True, wb)" by simp_all
  show "process_document_queries env pdf_url questions w = answer_questions env document questions wb"
    using skips_ingestion(1)[OF g h] .
  from skips_ingestion(2)[OF g h, of questions]
  show "ingestion_calls (snd (process_document_queries env pdf_url questions w)) = ingestion_calls w"
    "document_chunks (snd (process_document_queries env pdf_url questions w)) = document_chunks w"
    "vectors (snd (process_document_queries env pdf_url questions w)) = vectors w"
    by (simp_all add: same_ingestion_def)
next
  fix result w1
  assume a: "process_document_queries env pdf_url questions w = (result, w1)
      \<and> (document_chunks w1 \<noteq> document_chunks w \<or> stored_chunks pdf_url w \<noteq> [])
      \<and> db_reply env (length (calls w)) = Executed
      \<and> db_reply env (length (calls w1)) = Executed
      \<and> db_reply env (Suc (length (calls w1))) = Executed"
  then have p: "process_document_queries env pdf_url questions w = (result, w1)"
    and s: "document_chunks w1 \<noteq> document_chunks w \<or> stored_chunks pdf_url w \<noteq> []"
    and e: "db_reply env (length (calls w)) = Executed" "db_reply env (length (calls w1)) = Executed"
      "db_reply env (Suc (length (calls w1))) = Executed"
    by simp_all
  from second_request_skips(1)[OF p s e, of later_questions]
  show "ingestion_calls (snd (process_document_queries env pdf_url later_questions w1)) = ingestion_calls w1"
    "document_chunks (snd (process_document_queries env pdf_url later_questions w1)) = document_chunks w1"
    "vectors (snd (process_document_queries env pdf_url later_questions w1)) = vectors w1"
    by (simp_all add: same_ingestion_def)
  from second_request_skips(2)[OF p s e, of later_questions]
  show "documents (snd (process_document_queries env pdf_url later_questions w1)) = documents w1" .
qed



subsection \<open>A failing lookup of the chunks\<close>

lemma grown_sleep_backoff [simp]: "grown w (sleep_backoff n w)"
  by (simp add: sleep_backoff_def Let_def)

lemma grown_adapter_send: "preserves grown (adapter_send env url n failures)"
  unfolding preserves_def
proof (induction n arbitrary: failures)
  case 0
  show ?case by (auto simp: Let_def split: origin_reply.splits)
next
  case (Suc n)
  have "grown w (snd (adapter_send env url n (Suc failures)
           (sleep_backoff (Suc failures) (w\<lparr>calls := calls w @ [HttpRequest url]\<rparr>))))" for w
    using grown_trans[OF grown_trans[OF grown_append[of w "[HttpRequest url]"] grown_sleep_backoff]] Suc
    by blast
  then show ?case by (auto simp: Let_def split: origin_reply.splits)
qed

lemma begins_grown: "begins c w w1 \<Longrightarrow> grown w1 w2 \<Longrightarrow> begins c w w2"
  by (auto simp: begins_def grown_def prefix_def)

lemma begins_session_get: "begins (SessionGet url) w (snd (session_get env url w))"
proof -
  have "grown (w\<lparr>calls := calls w @ [SessionGet url]\<rparr>)
          (snd (adapter_send env url retry_total 0 (w\<lparr>calls := calls w @ [SessionGet url]\<rparr>)))"
    using grown_adapter_send by (simp add: preserves_def)
  then show ?thesis
    by (auto simp: session_get_def bind_def record_call_def begins_def grown_def prefix_def)
qed

lemma grown_session_get: "preserves grown (session_get env url)"
  unfolding session_get_def by (auto intro!: grown_adapter_send)

lemma grown_download_attempts:
  assumes "preserves grown (get url)"
  shows "grown w (snd (download_attempts get url m a n w))"
proof (induction n arbitrary: w a)
  case 0
  show ?case by simp
next
  case (Suc n)
  obtain r w1 where g: "get url w = (r, w1)" by fastforce
  from preservesD[OF assms g] have 1: "grown w w1" .
  have "grown (w1\<lparr>calls := calls w1 @ [Sleep (2 ^ a)]\<rparr>)
     (snd (download_attempts get url m (Suc a) n (w1\<lparr>calls := calls w1 @ [Sleep (2 ^ a)]\<rparr>)))"
    by (rule Suc.IH)
  from grown_trans[OF grown_trans[OF 1 grown_append] this]
  have 2: "grown w (snd (download_attempts get url m (Suc a) n (w1\<lparr>calls := calls w1 @ [Sleep (2 ^ a)]\<rparr>)))" .
  show ?case using g 1 2 by (auto split: sum.splits exn.splits)
qed

lemma begins_download_attempts:
  assumes "preserves grown (get url)" "\<And>w. begins c w (snd (get url w))"
  shows "begins c w (snd (download_attempts get url m a (Suc n) w))"
proof -
  obtain r w1 where g: "get url w = (r, w1)" by fastforce
  from assms(2)[of w] g have 1: "begins c w w1" by simp
  have "grown (w1\<lparr>calls := calls w1 @ [Sleep (2 ^ a)]\<rparr>)
     (snd (download_attempts get url m (Suc a) n (w1\<lparr>calls := calls w1 @ [Sleep (2 ^ a)]\<rparr>)))"
    using assms(1) by (rule grown_download_attempts)
  from begins_grown[OF begins_grown[OF 1 grown_append] this]
  have 2: "begins c w (snd (download_attempts get url m (Suc a) n (w1\<lparr>calls := calls w1 @ [Sleep (2 ^ a)]\<rparr>)))" .
  show ?thesis using g 1 2 by (auto split: sum.splits exn.splits)
qed

lemma grown_read_pdf: "preserves grown (read_pdf env bytes)"
  unfolding read_pdf_def by (auto simp: Let_def)

lemma grown_download: "preserves grown (download (session_get env) url)"
proof -
  have "preserves grown (download_attempts (session_get env) url 3 0 3)"
    unfolding preserves_def
    using grown_download_attempts[where get="session_get env" and url=url, OF grown_session_get]
    by blast
  then show ?thesis unfolding download_def by auto
qed

lemma begins_download:
  assumes "take 7 url = ''http://'' \<or> take 8 url = ''https://''"
  shows "begins (SessionGet url) w (snd (download (session_get env) url w))"
proof -
  have "begins (SessionGet url) w (snd (download_attempts (session_get env) url 3 0 (Suc 2) w))"
    using begins_download_attempts[where get="session_get env" and url=url,
        OF grown_session_get begins_session_get] .
  moreover have "Suc 2 = (3::nat)" by simp
  ultimately have b: "begins (SessionGet url) w (snd (download_attempts (session_get env) url 3 0 3 w))"
    by (simp only:)
  have "snd (download (session_get env) url w) = snd (download_attempts (session_get env) url 3 0 3 w)"
    using assms
    by (auto simp: download_def bind_def raise_def ret_def
        split: prod.splits sum.splits option.splits)
  with b show ?thesis by simp
qed

lemma begins_bind:
  assumes "\<And>w. begins c w (snd (m w))" "\<And>x. preserves grown (f x)"
  shows "begins c w (snd (bind m f w))"
proof -
  obtain r w1 where m: "m w = (r, w1)" by fastforce
  with assms(1)[of w] have 1: "begins c w w1" by simp
  show ?thesis
  proof (cases r)
    case (Inl e)
    with m 1 show ?thesis by (simp add: bind_def)
  next
    case (Inr x)
    from assms(2)[of x] have "grown w1 (snd (f x w1))" by (simp add: preserves_def)
    with begins_grown[OF 1] m Inr show ?thesis by (simp add: bind_def)
  qed
qed

lemma grown_dummy_ids: "preserves grown (dummy_ids env tag d n)"
  by (simp add: preserves_def dummy_ids_def)

lemma grown_encode_chunks: "preserves grown (encode_chunks env chunks)"
  unfolding encode_chunks_def by auto

lemma grown_make_vectors: "preserves grown (make_vectors env d pairs)"
  by (simp add: preserves_def make_vectors_def)

lemma grown_index_upsert: "preserves grown (index_upsert idx vs)"
  by (simp add: preserves_def index_upsert_def Let_def grown_def split: option.splits)

lemma grown_upsert_chunks: "preserves grown (upsert_chunks env idx chunks d)"
  unfolding upsert_chunks_def
  by (intro preserves_bind preserves_ret grown_encode_chunks grown_make_vectors
      grown_index_upsert steady_grown)

lemma grown_store_chunks: "preserves grown (store_chunks env chunks d)"
  unfolding store_chunks_def by (auto intro!: grown_dummy_ids grown_upsert_chunks)

lemma grown_create_document_chunk: "preserves grown (create_document_chunk env d i t p)"
  unfolding create_document_chunk_def by (intro preserves_bind preserves_let) auto

lemma grown_for_each: "(\<And>x. preserves grown (f x)) \<Longrightarrow> preserves grown (for_each xs f)"
  by (induction xs) auto

lemma grown_store_document_chunks: "preserves grown (store_document_chunks env d chunks)"
  unfolding store_document_chunks_def
  by (intro preserves_bind grown_for_each) (auto intro!: grown_store_chunks grown_create_document_chunk)

lemma grown_create_user_query: "preserves grown (create_user_query env d q)"
  unfolding create_user_query_def by (intro preserves_bind preserves_let) auto

lemma grown_format_matches: "preserves grown (format_matches raw)"
  by (induction raw) auto

lemma grown_encode_query: "preserves grown (encode_query env q)"
  unfolding encode_query_def by auto

lemma grown_index_query: "preserves grown (index_query idx emb k)"
  by (simp add: preserves_def index_query_def Let_def grown_def split: sum.splits)

lemma grown_search: "preserves grown (search_similar_chunks env q k)"
  unfolding search_similar_chunks_def query_index_def
  by (auto intro!: grown_format_matches grown_encode_query grown_index_query)

lemma grown_generate_answer: "preserves grown (generate_answer env q ms)"
  unfolding generate_answer_def
  by (intro preserves_try) (auto simp: preserves_def ret_def split: sum.splits)

lemma grown_collect_clauses: "preserves grown (collect_clauses env a ms)"
  by (induction ms) auto

lemma grown_create_answer: "preserves grown (create_answer_with_clauses env qid txt ms)"
  unfolding create_answer_with_clauses_def
  by (intro preserves_bind preserves_let) (auto intro!: grown_collect_clauses)

lemma grown_answer_questions: "preserves grown (answer_questions env d qs)"
  by (induction qs)
     (auto intro!: grown_create_user_query grown_search grown_generate_answer grown_create_answer)


lemma begins_ingest:
  assumes "take 7 url = ''http://'' \<or> take 8 url = ''https://''"
  shows "begins (SessionGet url) w (snd (ingest env url d w))"
  unfolding ingest_def extract_text_from_url_def chunk_text_io_def
  by (intro begins_bind begins_download[OF assms] preserves_bind preserves_ret steady_grown
      grown_read_pdf grown_store_document_chunks grown_record_call)


text \<open>
  Claim C9. \<open>has_chunks\<close> never raises: it always returns a boolean, and \<open>False\<close> when
  the read raises. Consequently, when the lookup of the chunks raises,
  \<open>process_document_queries\<close> does what it does for a document without chunks: it runs
  the ingestion and then answers the questions, and for a well-formed URL the call that
  follows the failed lookup is the download.
\<close>

theorem has_chunks_swallows_errors:
  "(\<exists>b w'. has_chunks env document_id w = (Inr b, w'))
   \<and> (db_reply env (length (calls w)) = Raised \<longrightarrow>
        has_chunks env document_id w = (Inr False, w\<lparr>calls := calls w @ [Select DOCUMENT_CHUNKS]\<rparr>))
   \<and> (\<forall>document w1.
         get_or_create_document env pdf_url w = (Inr document, w1)
         \<and> db_reply env (length (calls w1)) = Raised \<longrightarrow>
           process_document_queries env pdf_url questions w =
             bind (ingest env pdf_url (doc_id document))
                  (\<lambda>_. answer_questions env document questions)
                  (w1\<lparr>calls := calls w1 @ [Select DOCUMENT_CHUNKS]\<rparr>)
         \<and> ((take 7 pdf_url = ''http://'' \<or> take 8 pdf_url = ''https://'') \<longrightarrow>
              (\<exists>more. calls (snd (process_document_queries env pdf_url questions w)) =
                 calls w1 @ Select DOCUMENT_CHUNKS # SessionGet pdf_url # more)))"
proof (intro conjI allI impI)
  show "\<exists>b w'. has_chunks env document_id w = (Inr b, w')"
    by (auto simp: has_chunks_def try_except_def bind_def ret_def db_select_def Let_def
        split: db_outcome.splits)
next
  assume "db_reply env (length (calls w)) = Raised"
  then show "has_chunks env document_id w = (Inr False, w\<lparr>calls := calls w @ [Select DOCUMENT_CHUNKS]\<rparr>)"
    by (simp add: has_chunks_def try_except_def bind_def ret_def db_select_def Let_def)
next
  fix document w1
  assume a: "get_or_create_document env pdf_url w = (Inr document, w1)
         \<and> db_reply env (length (calls w1)) = Raised"
  then have h: "has_chunks env (doc_id document) w1 = (Inr False, w1\<lparr>calls := calls w1 @ [Select DOCUMENT_CHUNKS]\<rparr>)"
    by (simp add: has_chunks_def try_except_def bind_def ret_def db_select_def Let_def)
  with a show e: "process_document_queries env pdf_url questions w =
             bind (ingest env pdf_url (doc_id document))
                  (\<lambda>_. answer_questions env document questions)
                  (w1\<lparr>calls := calls w1 @ [Select DOCUMENT_CHUNKS]\<rparr>)"
    by (simp add: process_document_queries_def bind_def)
  assume u: "take 7 pdf_url = ''http://'' \<or> take 8 pdf_url = ''https://''"
  have "begins (SessionGet pdf_url) (w1\<lparr>calls := calls w1 @ [Select DOCUMENT_CHUNKS]\<rparr>)
          (snd (bind (ingest env pdf_url (doc_id document))
                  (\<lambda>_. answer_questions env document questions)
                  (w1\<lparr>calls := calls w1 @ [Select DOCUMENT_CHUNKS]\<rparr>)))"
    by (intro begins_bind begins_ingest[OF u] grown_answer_questions)
  then show "\<exists>more. calls (snd (process_document_queries env pdf_url questions w)) =
                 calls w1 @ Select DOCUMENT_CHUNKS # SessionGet pdf_url # more"
    unfolding e by (auto simp: begins_def)
qed


subsection \<open>Concrete runs\<close>

lemma demo_clean: "clean_text (\<lambda>_. False) (py ''ab. ba! ab?'' @ [10]) = py ''ab. ba! ab?''"
  by (simp add: clean_text_def py_def is_space_numeral allowed_char_def is_word_def ascii_word_def
      strip_def)

lemma demo_sentences: "split_into_sentences (py ''ab. ba! ab?'') = [py ''ab'', py ''ba'', py ''ab'']"
  by (simp add: eval_text)

lemma demo_chunks: "chunk_text CHUNK_SIZE CHUNK_OVERLAP (py ''ab. ba! ab?'') = [py ''ab ba ab'']"
  unfolding chunk_text_def demo_sentences CHUNK_SIZE_def CHUNK_OVERLAP_def
  by (simp add: eval_text)

lemma demo_session:
  "origin env = (\<lambda>_ _. Answers \<lparr>status_code = 200, content_type = ''application/pdf'', content = []\<rparr>) \<Longrightarrow>
   session_get env u w =
     (Inr \<lparr>status_code = 200, content_type = ''application/pdf'', content = []\<rparr>,
      w\<lparr>calls := calls w @ [SessionGet u, HttpRequest u]\<rparr>)"
  by (simp add: session_get_def bind_def record_call_def retry_total_def numeral_3_eq_3
      status_forcelist_def)

lemma demo_fetch:
  assumes "origin env = (\<lambda>_ _. Answers \<lparr>status_code = 200, content_type = ''application/pdf'', content = []\<rparr>)"
      and "pdf_reader env = (\<lambda>_. Inr [Inr (py ''ab. ba! ab?'')])" and "uni env = (\<lambda>_. False)"
  shows "extract_text_from_url env ''http://x/b.pdf'' w =
     (Inr (py ''ab. ba! ab?''),
      w\<lparr>calls := calls w @ [SessionGet ''http://x/b.pdf'', HttpRequest ''http://x/b.pdf'', PdfRead]\<rparr>)"
proof -
  have s: "strip (py ''ab. ba! ab?'' @ [10]) \<noteq> []"
    by (simp add: strip_def py_def is_space_numeral)
  have d: "download (session_get env) ''http://x/b.pdf'' w =
     (Inr \<lparr>status_code = 200, content_type = ''application/pdf'', content = []\<rparr>,
      w\<lparr>calls := calls w @ [SessionGet ''http://x/b.pdf'', HttpRequest ''http://x/b.pdf'']\<rparr>)"
    by (simp add: download_def bind_def ret_def numeral_3_eq_3 demo_session[OF assms(1)])
  show ?thesis
    by (simp add: extract_text_from_url_def bind_def d read_pdf_def record_call_def assms(2,3)
        s demo_clean ret_def)
qed

lemma run_lookup_fails:
  "process_document_queries env_lookup_fails ''http://x/b.pdf'' [] world_ab =
     (Inr [],
      world_ab
        \<lparr>document_chunks := document_chunks world_ab @
           [\<lparr>c_id = ''uuid-1'', c_document_id = ''docB'', c_chunk_index = 0,
             c_chunk_text = py ''ab ba ab'', c_pinecone_id = ''local_docB_0_uuid-0''\<rparr>],
         calls := [Select ''documents'', Select ''document_chunks'', SessionGet ''http://x/b.pdf'',
                   HttpRequest ''http://x/b.pdf'', PdfRead, ChunkText, Insert ''document_chunks''],
         uuids_drawn := 2\<rparr>)"
proof -
  have o: "origin env_lookup_fails = (\<lambda>_ _. Answers \<lparr>status_code = 200, content_type = ''application/pdf'', content = []\<rparr>)"
    "pdf_reader env_lookup_fails = (\<lambda>_. Inr [Inr (py ''ab. ba! ab?'')])" "uni env_lookup_fails = (\<lambda>_. False)"
    by (simp_all add: env_lookup_fails_def demo_env_def)
  have f: "db_reply env_lookup_fails = (\<lambda>k. if k = 1 then Raised else Executed)"
    "index env_lookup_fails = None" "uuid4 env_lookup_fails = (\<lambda>k. ''uuid-'' @ str_nat k)"
    by (simp_all add: env_lookup_fails_def demo_env_def)
  show ?thesis
    unfolding process_document_queries_def ingest_def chunk_text_io_def
    by (simp add: bind_def demo_fetch[OF o] demo_chunks get_or_create_document_def has_chunks_def
      db_select_def db_insert_def ret_def raise_def try_except_def new_uuid_def record_call_def
      Let_def DOCUMENTS_def DOCUMENT_CHUNKS_def str_nat_small store_document_chunks_def
      store_chunks_def dummy_ids_def make_id_def create_document_chunk_def
      world_ab_def f empty_world_def enumerate_eq_zip upt_conv_Cons)
qed

theorem has_chunks_swallows_errors_witness:
  "has_chunks env_lookup_fails ''docB'' (world_ab\<lparr>calls := [Select ''documents'']\<rparr>)
     = (Inr False, world_ab\<lparr>calls := [Select ''documents'', Select ''document_chunks'']\<rparr>)
   \<and> calls (snd (process_document_queries env_lookup_fails ''http://x/b.pdf'' [] world_ab))
     = [Select ''documents'', Select ''document_chunks'', SessionGet ''http://x/b.pdf'',
        HttpRequest ''http://x/b.pdf'', PdfRead, ChunkText, Insert ''document_chunks'']
   \<and> map c_chunk_index (filter (\<lambda>c. c_document_id c = ''docB'')
        (document_chunks (snd (process_document_queries env_lookup_fails ''http://x/b.pdf'' [] world_ab))))
     = [0, 0]"
proof -
  have r: "db_reply env_lookup_fails (length (calls (world_ab\<lparr>calls := [Select ''documents'']\<rparr>))) = Raised"
    by (simp add: env_lookup_fails_def demo_env_def)
  from has_chunks_swallows_errors[where env=env_lookup_fails and document_id="''docB''"
      and w="world_ab\<lparr>calls := [Select ''documents'']\<rparr>"] r
  have "has_chunks env_lookup_fails ''docB'' (world_ab\<lparr>calls := [Select ''documents'']\<rparr>)
     = (Inr False, world_ab\<lparr>calls := [Select ''documents''],
                            calls := calls (world_ab\<lparr>calls := [Select ''documents'']\<rparr>) @ [Select DOCUMENT_CHUNKS]\<rparr>)"
    by blast
  then show ?thesis
    unfolding run_lookup_fails by (simp add: DOCUMENT_CHUNKS_def world_ab_def empty_world_def)
qed

lemmas run_defs3 = bind_def get_or_create_document_def has_chunks_def
  db_select_def db_insert_def ret_def raise_def try_except_def new_uuid_def record_call_def
  Let_def DOCUMENTS_def DOCUMENT_CHUNKS_def str_nat_small store_document_chunks_def
  store_chunks_def dummy_ids_def make_id_def create_document_chunk_def
  empty_world_def enumerate_eq_zip upt_conv_Cons

subsection \<open>Two requests when the second lookup of the chunks fails\<close>

lemma second_lookup_fails_fields:
  "origin env_second_lookup_fails = (\<lambda>_ _. Answers \<lparr>status_code = 200, content_type = ''application/pdf'', content = []\<rparr>)"
  "pdf_reader env_second_lookup_fails = (\<lambda>_. Inr [Inr (py ''ab. ba! ab?'')])"
  "uni env_second_lookup_fails = (\<lambda>_. False)"
  "db_reply env_second_lookup_fails = (\<lambda>k. if k = 9 then Raised else Executed)"
  "index env_second_lookup_fails = None"
  "uuid4 env_second_lookup_fails = (\<lambda>k. ''uuid-'' @ str_nat k)"
  by (simp_all add: env_second_lookup_fails_def demo_env_def)

lemma run_once:
  "process_document_queries env_second_lookup_fails ''http://x/b.pdf'' [] empty_world
     = (Inr [], world_ingested)"
  unfolding process_document_queries_def ingest_def chunk_text_io_def
  by (simp add: run_defs3 demo_fetch[OF second_lookup_fails_fields(1,2,3)] demo_chunks
      world_ingested_def second_lookup_fails_fields(4,5,6))

lemma run_twice:
  "process_document_queries env_second_lookup_fails ''http://x/b.pdf'' [] world_ingested =
     (Inr [],
      world_ingested
        \<lparr>document_chunks := document_chunks world_ingested @
           [\<lparr>c_id = ''uuid-4'', c_document_id = ''uuid-0'', c_chunk_index = 0,
             c_chunk_text = py ''ab ba ab'', c_pinecone_id = ''local_uuid-0_0_uuid-3''\<rparr>],
         calls := calls world_ingested @
           [Select ''documents'', Select ''document_chunks'', SessionGet ''http://x/b.pdf'',
            HttpRequest ''http://x/b.pdf'', PdfRead, ChunkText, Insert ''document_chunks''],
         uuids_drawn := 5\<rparr>)"
  unfolding process_document_queries_def ingest_def chunk_text_io_def
  by (simp add: run_defs3 demo_fetch[OF second_lookup_fails_fields(1,2,3)] demo_chunks
      world_ingested_def second_lookup_fails_fields(4,5,6))

text \<open>
  Two requests in sequence for one document whose text gives one chunk, the lookup of the
  chunks raising in the second: both requests return, the second ingests the document
  again, and the document then has two chunk rows with the ordinal 0.
\<close>

theorem ordinals_repeat_counterexample:
  "process_document_queries env_second_lookup_fails ''http://x/b.pdf'' [] empty_world
     = (Inr [], world_ingested)
   \<and> fst (process_document_queries env_second_lookup_fails ''http://x/b.pdf'' [] world_ingested) = Inr []
   \<and> chunk_text CHUNK_SIZE CHUNK_OVERLAP (py ''ab. ba! ab?'') = [py ''ab ba ab'']
   \<and> map c_document_id (document_chunks
        (snd (process_document_queries env_second_lookup_fails ''http://x/b.pdf'' [] world_ingested)))
     = [''uuid-0'', ''uuid-0'']
   \<and> map c_chunk_index (document_chunks
        (snd (process_document_queries env_second_lookup_fails ''http://x/b.pdf'' [] world_ingested)))
     = [0, 0]"
  unfolding run_once run_twice demo_chunks by (simp add: world_ingested_def empty_world_def)

subsection \<open>Two requests with an index\<close>

lemma shared_index_fields:
  "origin env_shared_index = (\<lambda>_ _. Answers \<lparr>status_code = 200, content_type = ''application/pdf'', content = []\<rparr>)"
  "pdf_reader env_shared_index = (\<lambda>_. Inr [Inr (py ''ab. ba! ab?'')])"
  "uni env_shared_index = (\<lambda>_. False)"
  "db_reply env_shared_index = (\<lambda>_. Executed)"
  "index env_shared_index = Some shared_index"
  "uuid4 env_shared_index = (\<lambda>k. ''uuid-'' @ str_nat k)"
  "embedding_model env_shared_index = (\<lambda>ts. Inr (map (\<lambda>_. []) ts))"
  "upsert_reply shared_index = (\<lambda>_. None)"
  by (simp_all add: env_shared_index_def demo_env_def shared_index_def)

lemma run_indexed:
  "process_document_queries env_shared_index ''http://x/b.pdf'' [] empty_world
     = (Inr [], world_indexed)"
proof -
  have l: "length (py ''ab ba ab'') \<le> 1000" by (simp add: py_def)
  show ?thesis
    unfolding process_document_queries_def ingest_def chunk_text_io_def
    by (simp add: run_defs3 demo_fetch[OF shared_index_fields(1,2,3)] demo_chunks
        upsert_chunks_def encode_chunks_def make_vectors_def index_upsert_def
        world_indexed_def shared_index_fields(4,5,6,7,8) l)
qed

theorem idempotent_ingestion_witness:
  "process_document_queries env_shared_index ''http://x/b.pdf'' [] empty_world = (Inr [], world_indexed)
   \<and> ingestion_calls (snd (process_document_queries env_shared_index ''http://x/b.pdf'' [py ''q''] world_indexed))
       = [SessionGet ''http://x/b.pdf'', HttpRequest ''http://x/b.pdf'', PdfRead, ChunkText,
          EncodeChunks [py ''ab ba ab''], Upsert [''uuid-0_0_uuid-1'']]
   \<and> documents (snd (process_document_queries env_shared_index ''http://x/b.pdf'' [py ''q''] world_indexed))
       = [\<lparr>doc_id = ''uuid-0'', doc_url = ''http://x/b.pdf''\<rparr>]
   \<and> document_chunks (snd (process_document_queries env_shared_index ''http://x/b.pdf'' [py ''q''] world_indexed))
       = [\<lparr>c_id = ''uuid-2'', c_document_id = ''uuid-0'', c_chunk_index = 0,
           c_chunk_text = py ''ab ba ab'', c_pinecone_id = ''uuid-0_0_uuid-1''\<rparr>]
   \<and> vectors (snd (process_document_queries env_shared_index ''http://x/b.pdf'' [py ''q''] world_indexed))
       = [\<lparr>v_id = ''uuid-0_0_uuid-1'', v_values = [], v_document_id = ''uuid-0'',
           v_chunk_index = 0, v_text = py ''ab ba ab'', v_full_text = py ''ab ba ab''\<rparr>]
   \<and> process_document_queries env_shared_index ''http://x/b.pdf'' [py ''q''] world_indexed
       = answer_questions env_shared_index \<lparr>doc_id = ''uuid-0'', doc_url = ''http://x/b.pdf''\<rparr> [py ''q'']
           (world_indexed\<lparr>calls := calls world_indexed @ [Select DOCUMENTS, Select DOCUMENT_CHUNKS]\<rparr>)"
proof -
  have s: "document_chunks world_indexed \<noteq> document_chunks empty_world
           \<or> stored_chunks ''http://x/b.pdf'' empty_world \<noteq> []"
    by (simp add: world_indexed_def empty_world_def)
  have e: "db_reply env_shared_index k = Executed" for k
    by (simp add: shared_index_fields)
  from idempotent_ingestion[where env=env_shared_index and pdf_url="''http://x/b.pdf''"
      and questions="[]" and w=empty_world and later_questions="[py ''q'']"] run_indexed s e
  have c: "ingestion_calls (snd (process_document_queries env_shared_index ''http://x/b.pdf'' [py ''q''] world_indexed))
       = ingestion_calls world_indexed"
    "documents (snd (process_document_queries env_shared_index ''http://x/b.pdf'' [py ''q''] world_indexed))
       = documents world_indexed"
    "document_chunks (snd (process_document_queries env_shared_index ''http://x/b.pdf'' [py ''q''] world_indexed))
       = document_chunks world_indexed"
    "vectors (snd (process_document_queries env_shared_index ''http://x/b.pdf'' [py ''q''] world_indexed))
       = vectors world_indexed"
    by blast+
  have g: "get_or_create_document env_shared_index ''http://x/b.pdf'' world_indexed =
      (Inr \<lparr>doc_id = ''uuid-0'', doc_url = ''http://x/b.pdf''\<rparr>,
       world_indexed\<lparr>calls := calls world_indexed @ [Select DOCUMENTS]\<rparr>)"
    by (simp add: get_or_create_document_def bind_def db_select_def Let_def ret_def
        shared_index_fields world_indexed_def empty_world_def)
  have h: "has_chunks env_shared_index (doc_id \<lparr>doc_id = ''uuid-0'', doc_url = ''http://x/b.pdf''\<rparr>)
             (world_indexed\<lparr>calls := calls world_indexed @ [Select DOCUMENTS]\<rparr>) =
      (Inr True, world_indexed\<lparr>calls := calls world_indexed @ [Select DOCUMENTS, Select DOCUMENT_CHUNKS]\<rparr>)"
    by (simp add: has_chunks_def try_except_def bind_def db_select_def Let_def ret_def
        shared_index_fields world_indexed_def empty_world_def)
  from idempotent_ingestion[where env=env_shared_index and pdf_url="''http://x/b.pdf''"
      and questions="[py ''q'']" and w=world_indexed] g h
  have a: "process_document_queries env_shared_index ''http://x/b.pdf'' [py ''q''] world_indexed
       = answer_questions env_shared_index \<lparr>doc_id = ''uuid-0'', doc_url = ''http://x/b.pdf''\<rparr> [py ''q'']
           (world_indexed\<lparr>calls := calls world_indexed @ [Select DOCUMENTS, Select DOCUMENT_CHUNKS]\<rparr>)"
    by blast
  have i: "ingestion_calls world_indexed =
       [SessionGet ''http://x/b.pdf'', HttpRequest ''http://x/b.pdf'', PdfRead, ChunkText,
        EncodeChunks [py ''ab ba ab''], Upsert [''uuid-0_0_uuid-1'']]"
    "documents world_indexed = [\<lparr>doc_id = ''uuid-0'', doc_url = ''http://x/b.pdf''\<rparr>]"
    "document_chunks world_indexed
       = [\<lparr>c_id = ''uuid-2'', c_document_id = ''uuid-0'', c_chunk_index = 0,
           c_chunk_text = py ''ab ba ab'', c_pinecone_id = ''uuid-0_0_uuid-1''\<rparr>]"
    "vectors world_indexed
       = [\<lparr>v_id = ''uuid-0_0_uuid-1'', v_values = [], v_document_id = ''uuid-0'',
           v_chunk_index = 0, v_text = py ''ab ba ab'', v_full_text = py ''ab ba ab''\<rparr>]"
    by (simp_all add: ingestion_calls_def world_indexed_def empty_world_def)
  have b: "ingestion_calls (snd (process_document_queries env_shared_index ''http://x/b.pdf'' [py ''q''] world_indexed))
       = [SessionGet ''http://x/b.pdf'', HttpRequest ''http://x/b.pdf'', PdfRead, ChunkText,
          EncodeChunks [py ''ab ba ab''], Upsert [''uuid-0_0_uuid-1'']]"
    "documents (snd (process_document_queries env_shared_index ''http://x/b.pdf'' [py ''q''] world_indexed))
       = [\<lparr>doc_id = ''uuid-0'', doc_url = ''http://x/b.pdf''\<rparr>]"
    "document_chunks (snd (process_document_queries env_shared_index ''http://x/b.pdf'' [py ''q''] world_indexed))
       = [\<lparr>c_id = ''uuid-2'', c_document_id = ''uuid-0'', c_chunk_index = 0,
           c_chunk_text = py ''ab ba ab'', c_pinecone_id = ''uuid-0_0_uuid-1''\<rparr>]"
    "vectors (snd (process_document_queries env_shared_index ''http://x/b.pdf'' [py ''q''] world_indexed))
       = [\<lparr>v_id = ''uuid-0_0_uuid-1'', v_values = [], v_document_id = ''uuid-0'',
           v_chunk_index = 0, v_text = py ''ab ba ab'', v_full_text = py ''ab ba ab''\<rparr>]"
    by (simp_all only: c i)
  show ?thesis
    by (intro conjI) (rule run_indexed, rule b(1), rule b(2), rule b(3), rule b(4), rule a)
qed

subsection \<open>Two requests for a document without chunks\<close>

lemma blank_clean: "clean_text (\<lambda>_. False) (py ''* * *'' @ [10]) = []"
  by (simp add: clean_text_def py_def is_space_numeral allowed_char_def is_word_def ascii_word_def
      strip_def)

lemma blank_chunks: "chunk_text CHUNK_SIZE CHUNK_OVERLAP [] = []"
  by (simp add: chunk_text_def eval_text)

lemma blank_fields:
  "origin env_blank = (\<lambda>_ _. Answers \<lparr>status_code = 200, content_type = ''application/pdf'', content = []\<rparr>)"
  "pdf_reader env_blank = (\<lambda>_. Inr [Inr (py ''* * *'')])"
  "uni env_blank = (\<lambda>_. False)"
  "db_reply env_blank = (\<lambda>_. Executed)"
  "index env_blank = None"
  "uuid4 env_blank = (\<lambda>k. ''uuid-'' @ str_nat k)"
  by (simp_all add: env_blank_def demo_env_def)

lemma blank_fetch:
  "extract_text_from_url env_blank ''http://x/b.pdf'' w =
     (Inr [],
      w\<lparr>calls := calls w @ [SessionGet ''http://x/b.pdf'', HttpRequest ''http://x/b.pdf'', PdfRead]\<rparr>)"
proof -
  have s: "strip (py ''* * *'' @ [10]) \<noteq> []"
    by (simp add: strip_def py_def is_space_numeral)
  have d: "download (session_get env_blank) ''http://x/b.pdf'' w =
     (Inr \<lparr>status_code = 200, content_type = ''application/pdf'', content = []\<rparr>,
      w\<lparr>calls := calls w @ [SessionGet ''http://x/b.pdf'', HttpRequest ''http://x/b.pdf'']\<rparr>)"
    by (simp add: download_def bind_def ret_def numeral_3_eq_3 demo_session[OF blank_fields(1)])
  show ?thesis
    by (simp add: extract_text_from_url_def bind_def d read_pdf_def record_call_def blank_fields(2,3)
        s blank_clean ret_def)
qed

lemma run_blank:
  "process_document_queries env_blank ''http://x/b.pdf'' [] empty_world = (Inr [], world_blank)"
  unfolding process_document_queries_def ingest_def chunk_text_io_def
  by (simp add: run_defs3 blank_fetch blank_chunks world_blank_def blank_fields(4,5,6))

lemma run_blank_again:
  "process_document_queries env_blank ''http://x/b.pdf'' [] world_blank =
     (Inr [],
      world_blank
        \<lparr>calls := calls world_blank @
           [Select ''documents'', Select ''document_chunks'', SessionGet ''http://x/b.pdf'',
            HttpRequest ''http://x/b.pdf'', PdfRead, ChunkText]\<rparr>)"
  unfolding process_document_queries_def ingest_def chunk_text_io_def
  by (simp add: run_defs3 blank_fetch blank_chunks world_blank_def blank_fields(4,5,6))

text \<open>
  Two requests in sequence for a document whose only page reads \<open>* * *\<close>, with a
  persistence layer that executes every call: both requests return, and the second
  fetches, reads and chunks the document again.
\<close>

theorem second_request_fetches_counterexample:
  "process_document_queries env_blank ''http://x/b.pdf'' [] empty_world = (Inr [], world_blank)
   \<and> ingestion_calls world_blank
       = [SessionGet ''http://x/b.pdf'', HttpRequest ''http://x/b.pdf'', PdfRead, ChunkText]
   \<and> fst (process_document_queries env_blank ''http://x/b.pdf'' [] world_blank) = Inr []
   \<and> ingestion_calls (snd (process_document_queries env_blank ''http://x/b.pdf'' [] world_blank))
       = [SessionGet ''http://x/b.pdf'', HttpRequest ''http://x/b.pdf'', PdfRead, ChunkText,
          SessionGet ''http://x/b.pdf'', HttpRequest ''http://x/b.pdf'', PdfRead, ChunkText]
   \<and> ingestion_calls (snd (process_document_queries env_blank ''http://x/b.pdf'' [] world_blank))
       \<noteq> ingestion_calls world_blank"
  unfolding run_blank run_blank_again
  by (simp add: ingestion_calls_def world_blank_def empty_world_def)

end
